theory Spec2Isabelle
  imports Complex_Main "HOL-Library.AList" "HOL-Library.Multiset"
begin

section \<open>Data model (types/rsvp.types)\<close>

text \<open>
  A JavaScript \<open>Date\<close> is modelled by its time value, the number of milliseconds since
  the epoch. \<open>new Date()\<close> is an input of every operation that reads the clock.
  Every string-typed field is a \<open>string\<close>; a JavaScript \<open>number\<close> that the code uses as a
  count of players or of days is an \<open>int\<close>. An optional property is an \<open>option\<close>.
  The RSVP status is kept as a string, as it is at run time: \<open>validateRsvpStatus\<close> is
  what restricts it to the three legal values. Strings are sequences of ASCII
  characters; white space, trimming and lower-casing are those of ASCII.
\<close>

type_synonym Date = int

record Player =
  player_id :: string
  player_name :: string
  player_email :: string

record Event =
  event_id :: string
  event_name :: string
  description :: string
  date :: Date
  location :: string
  maxPlayers :: int
  archived :: "bool option"

record RsvpEntry =
  eventId :: string
  player :: Player
  status :: string
  updatedAt :: Date
  entry_notes :: "string option"

record RsvpStats =
  total :: nat
  confirmed :: nat
  declined :: nat
  maybe :: nat
  attendanceRate :: real
  responseRate :: real

record SearchOptions =
  so_eventId :: "string option"
  so_playerName :: "string option"
  so_status :: "string option"
  so_startDate :: "Date option"

record BatchRsvpUpdate =
  bu_eventId :: string
  bu_playerId :: string
  bu_status :: string
  bu_notes :: "string option"

record EventUpdate =
  eu_name :: "string option"
  eu_description :: "string option"
  eu_date :: "Date option"
  eu_location :: "string option"
  eu_maxPlayers :: "int option"

record PlayerUpdate =
  pu_name :: "string option"
  pu_email :: "string option"

record WaitlistEntry =
  wl_eventId :: string
  wl_player :: Player
  joinedAt :: Date
  notifiedAt :: "Date option"

record EventReminder =
  rem_eventId :: string
  lastSentAt :: Date
  nextSendAt :: Date
  reminderInterval :: int

record CleanupOptions =
  maxAge :: "int option"
  archive :: "bool option"
  includeRSVPs :: "bool option"

datatype error = ValidationError string | RsvpError string | StorageError string

text \<open>
  A JavaScript \<open>Map\<close> keeps its keys distinct and iterates in insertion order;
  \<open>set\<close> on a present key replaces the value in place and on a new key appends.
  That is an association list with \<^const>\<open>AList.update\<close>, \<^const>\<open>AList.delete\<close>
  and \<^const>\<open>map_of\<close>.
\<close>

record Store =
  rsvpEntries :: "(string \<times> RsvpEntry) list"
  events :: "(string \<times> Event) list"
  waitlist :: "(string \<times> WaitlistEntry list) list"
  reminders :: "(string \<times> EventReminder) list"

definition empty_store :: Store where
  "empty_store = \<lparr>rsvpEntries = [], events = [], waitlist = [], reminders = []\<rparr>"

definition wf_store :: "Store \<Rightarrow> bool" where
  "wf_store s =
     (distinct (map fst (rsvpEntries s)) \<and> distinct (map fst (events s)) \<and>
      distinct (map fst (waitlist s)) \<and> distinct (map fst (reminders s)))"

section \<open>Validator (utils/validators.ts)\<close>

definition isWhiteSpace :: "char \<Rightarrow> bool" where
  "isWhiteSpace c = (c \<in> set [CHR 0x20, CHR 0x09, CHR 0x0A, CHR 0x0B, CHR 0x0C, CHR 0x0D])"

definition trim :: "string \<Rightarrow> string" where
  "trim s = rev (dropWhile isWhiteSpace (rev (dropWhile isWhiteSpace s)))"

definition emailChar :: "char \<Rightarrow> bool" where
  "emailChar c = (\<not> isWhiteSpace c \<and> c \<noteq> CHR ''@'')"

text \<open>
  The pattern \<^verbatim>\<open>/^[^\s@]+@[^\s@]+\.[^\s@]+$/\<close>: a non-empty local part, one \<open>@\<close>, and a
  domain with a dot that has at least one character on each side; no white space and no
  second \<open>@\<close> anywhere.
\<close>

definition isValidEmail :: "string \<Rightarrow> bool" where
  "isValidEmail e =
     (case dropWhile (\<lambda>c. c \<noteq> CHR ''@'') e of
        [] \<Rightarrow> False
      | _ # d \<Rightarrow>
          takeWhile (\<lambda>c. c \<noteq> CHR ''@'') e \<noteq> [] \<and>
          list_all emailChar (takeWhile (\<lambda>c. c \<noteq> CHR ''@'') e) \<and>
          list_all emailChar d \<and> CHR ''.'' \<in> set (butlast (tl d)))"

definition validatePlayer :: "Player \<Rightarrow> error + unit" where
  "validatePlayer p =
     (if player_id p = [] then
        Inl (ValidationError ''Player ID is required and must be a string'')
      else if player_name p = [] \<or> length (trim (player_name p)) = 0 then
        Inl (ValidationError ''Player name is required and must be a non-empty string'')
      else if player_email p = [] \<or> \<not> isValidEmail (player_email p) then
        Inl (ValidationError ''Valid email is required'')
      else Inr ())"

definition validStatuses :: "string list" where
  "validStatuses = [''Yes'', ''No'', ''Maybe'']"

definition validateRsvpStatus :: "string \<Rightarrow> error + unit" where
  "validateRsvpStatus st =
     (if st \<notin> set validStatuses then
        Inl (ValidationError ''Invalid RSVP status. Must be one of: Yes, No, Maybe'')
      else Inr ())"

text \<open>
  \<open>validateEvent\<close> reads the clock once (\<open>event.date < new Date()\<close>); \<open>now\<close> is that
  reading. A time value is always a valid instant and \<open>maxPlayers\<close> always an integer
  here, so the \<open>isNaN\<close> and \<open>Number.isInteger\<close> tests have no failing branch.
\<close>

definition validateEvent :: "Date \<Rightarrow> Event \<Rightarrow> error + unit" where
  "validateEvent now event =
     (if event_id event = [] then
        Inl (ValidationError ''Event ID is required and must be a string'')
      else if event_name event = [] \<or> length (trim (event_name event)) = 0 then
        Inl (ValidationError ''Event name is required and must be a non-empty string'')
      else if description event = [] \<or> length (trim (description event)) = 0 then
        Inl (ValidationError ''Event description is required and must be a non-empty string'')
      else if date event < now then
        Inl (ValidationError ''Event date cannot be in the past'')
      else if location event = [] \<or> length (trim (location event)) = 0 then
        Inl (ValidationError ''Event location is required and must be a non-empty string'')
      else if maxPlayers event < 1 then
        Inl (ValidationError ''maxPlayers must be a positive integer'')
      else Inr ())"

section \<open>RSVP service (services/rsvp.service)\<close>

text \<open>
  Every operation takes the in-memory collections and returns its result (\<open>Inl\<close> an
  error that is thrown) together with the collections afterwards. The service is taken
  after its one-time initialisation from a storage location without a snapshot, and
  \<open>saveData\<close> is taken to succeed, so the only errors raised inside an operation are
  the \<open>ValidationError\<close>s it throws itself; its \<open>catch\<close> block re-throws these unchanged.
\<close>

definition rsvpKey :: "string \<Rightarrow> string \<Rightarrow> string" where
  "rsvpKey eid pid = eid @ ''-'' @ pid"

definition "values" :: "('k \<times> 'v) list \<Rightarrow> 'v list" where
  "values m = map snd m"

definition rethrow :: "string \<Rightarrow> error + 'a \<Rightarrow> error + 'a" where
  "rethrow msg r =
     (case r of
        Inl (ValidationError m) \<Rightarrow> Inl (ValidationError m)
      | Inl _ \<Rightarrow> Inl (RsvpError msg)
      | Inr x \<Rightarrow> Inr x)"

definition createEvent :: "Store \<Rightarrow> Date \<Rightarrow> Event \<Rightarrow> (error + Event) \<times> Store" where
  "createEvent s now event =
     (case validateEvent now event of
        Inl e \<Rightarrow> (Inl e, s)
      | Inr _ \<Rightarrow>
          if maxPlayers event \<le> 0 then
            (Inl (ValidationError ''maxPlayers must be a positive number''), s)
          else (Inr event, s\<lparr>events := AList.update (event_id event) event (events s)\<rparr>))"

definition getEvent :: "Store \<Rightarrow> string \<Rightarrow> Event option" where
  "getEvent s eid = map_of (events s) eid"

definition getConfirmedAttendees :: "Store \<Rightarrow> RsvpEntry list" where
  "getConfirmedAttendees s =
     sort_key updatedAt (filter (\<lambda>entry. status entry = ''Yes'') (values (rsvpEntries s)))"

definition updateRsvp ::
  "Store \<Rightarrow> Date \<Rightarrow> string \<Rightarrow> Player \<Rightarrow> string \<Rightarrow> string option \<Rightarrow> (error + RsvpEntry) \<times> Store"
where
  "updateRsvp s now eid p st nts =
     (case map_of (events s) eid of
        None \<Rightarrow> (Inl (ValidationError ''Event not found''), s)
      | Some event \<Rightarrow>
          (case validatePlayer p of
             Inl e \<Rightarrow> (Inl e, s)
           | Inr _ \<Rightarrow>
               (case validateRsvpStatus st of
                  Inl e \<Rightarrow> (Inl e, s)
                | Inr _ \<Rightarrow>
                    if st = ''Yes'' \<and> maxPlayers event \<le> int (length (getConfirmedAttendees s)) then
                      (Inl (ValidationError ''Event is at maximum capacity''), s)
                    else
                      let entry = \<lparr>eventId = eid, player = p, status = st, updatedAt = now,
                                   entry_notes = nts\<rparr>
                      in (Inr entry,
                          s\<lparr>rsvpEntries :=
                              AList.update (rsvpKey eid (player_id p)) entry (rsvpEntries s)\<rparr>))))"

definition getPlayerById :: "Store \<Rightarrow> string \<Rightarrow> Player option" where
  "getPlayerById s pid =
     map_option player (find (\<lambda>e. player_id (player e) = pid) (values (rsvpEntries s)))"

text \<open>
  The body of the \<open>for\<close> loop of \<open>batchUpdateRsvps\<close> for one update; \<open>now\<close> is the clock
  reading of the \<open>updateRsvp\<close> call it makes (which is given no notes).
\<close>

definition batchItem :: "Store \<Rightarrow> Date \<Rightarrow> BatchRsvpUpdate \<Rightarrow> (error + RsvpEntry) \<times> Store" where
  "batchItem s now u =
     (case map_of (events s) (bu_eventId u) of
        None \<Rightarrow> (Inl (ValidationError (''Event not found: '' @ bu_eventId u)), s)
      | Some event \<Rightarrow>
          (case getPlayerById s (bu_playerId u) of
             None \<Rightarrow> (Inl (ValidationError (''Player not found: '' @ bu_playerId u)), s)
           | Some p \<Rightarrow> updateRsvp s now (bu_eventId u) p (bu_status u) None))"

fun batchLoop ::
  "Store \<Rightarrow> (Date \<times> BatchRsvpUpdate) list \<Rightarrow> RsvpEntry list \<Rightarrow> (error + RsvpEntry list) \<times> Store"
where
  "batchLoop s [] results = (Inr results, s)"
| "batchLoop s ((now, u) # us) results =
     (case batchItem s now u of
        (Inl e, s') \<Rightarrow> (Inl e, s')
      | (Inr entry, s') \<Rightarrow> batchLoop s' us (results @ [entry]))"

text \<open>Each update of the list comes with the clock reading at which it is processed.\<close>

definition batchUpdateRsvps ::
  "Store \<Rightarrow> (Date \<times> BatchRsvpUpdate) list \<Rightarrow> (error + RsvpEntry list) \<times> Store"
where
  "batchUpdateRsvps s updates =
     (case batchLoop s updates [] of
        (r, s') \<Rightarrow> (rethrow ''Failed to batch update RSVPs'' r, s'))"

text \<open>
  The two rates are JavaScript doubles in the source; here they are the exact quotients.
\<close>

definition getRsvpStats :: "Store \<Rightarrow> RsvpStats" where
  "getRsvpStats s =
     (let entries = values (rsvpEntries s);
          total = length entries;
          confirmed = length (filter (\<lambda>entry. status entry = ''Yes'') entries);
          declined = length (filter (\<lambda>entry. status entry = ''No'') entries);
          maybe = length (filter (\<lambda>entry. status entry = ''Maybe'') entries);
          attendanceRate = (if total > 0 then (real confirmed / real total) * 100 else 0);
          responseRate =
            (if total > 0 then (real (confirmed + declined + maybe) / real total) * 100 else 0)
      in \<lparr>total = total, confirmed = confirmed, declined = declined, maybe = maybe,
          attendanceRate = attendanceRate, responseRate = responseRate\<rparr>)"

definition toLowerCase :: "string \<Rightarrow> string" where
  "toLowerCase str =
     map (\<lambda>c. if 65 \<le> (of_char c :: nat) \<and> (of_char c :: nat) \<le> 90
               then char_of (of_char c + 32 :: nat) else c) str"

fun includes_str :: "string \<Rightarrow> string \<Rightarrow> bool" where
  "includes_str [] pat = (pat = [])"
| "includes_str (c # cs) pat = (take (length pat) (c # cs) = pat \<or> includes_str cs pat)"

text \<open>A string option as a JavaScript condition: absent and the empty string are falsy.\<close>

definition truthy :: "string option \<Rightarrow> bool" where
  "truthy x = (case x of None \<Rightarrow> False | Some v \<Rightarrow> v \<noteq> [])"

definition searchRsvps :: "Store \<Rightarrow> SearchOptions \<Rightarrow> RsvpEntry list" where
  "searchRsvps s options =
     (let results = values (rsvpEntries s);
          results = (if truthy (so_eventId options)
                     then filter (\<lambda>entry. Some (eventId entry) = so_eventId options) results
                     else results);
          results = (if truthy (so_playerName options)
                     then filter (\<lambda>entry. includes_str (toLowerCase (player_name (player entry)))
                                     (toLowerCase (the (so_playerName options)))) results
                     else results);
          results = (if truthy (so_status options)
                     then filter (\<lambda>entry. Some (status entry) = so_status options) results
                     else results);
          results = (case so_startDate options of
                       None \<Rightarrow> results
                     | Some start \<Rightarrow>
                         (case (case so_eventId options of
                                  None \<Rightarrow> None | Some eid \<Rightarrow> map_of (events s) eid) of
                            None \<Rightarrow> results
                          | Some event \<Rightarrow> filter (\<lambda>entry. start \<le> date event) results))
      in sort_key updatedAt results)"

text \<open>\<open>{ ...event, ...update }\<close>: a property present in the update replaces the event's.\<close>

definition mergeEvent :: "Event \<Rightarrow> EventUpdate \<Rightarrow> Event" where
  "mergeEvent event update =
     event\<lparr>event_name := (case eu_name update of None \<Rightarrow> event_name event | Some v \<Rightarrow> v),
           description := (case eu_description update of None \<Rightarrow> description event | Some v \<Rightarrow> v),
           date := (case eu_date update of None \<Rightarrow> date event | Some v \<Rightarrow> v),
           location := (case eu_location update of None \<Rightarrow> location event | Some v \<Rightarrow> v),
           maxPlayers := (case eu_maxPlayers update of None \<Rightarrow> maxPlayers event | Some v \<Rightarrow> v)\<rparr>"

definition updateEvent :: "Store \<Rightarrow> Date \<Rightarrow> string \<Rightarrow> EventUpdate \<Rightarrow> (error + Event) \<times> Store" where
  "updateEvent s now eid update =
     (case map_of (events s) eid of
        None \<Rightarrow> (Inl (ValidationError ''Event not found''), s)
      | Some event \<Rightarrow>
          (let updatedEvent = mergeEvent event update in
           case validateEvent now updatedEvent of
             Inl e \<Rightarrow> (Inl e, s)
           | Inr _ \<Rightarrow> (Inr updatedEvent, s\<lparr>events := AList.update eid updatedEvent (events s)\<rparr>)))"

text \<open>
  A \<open>for ... of\<close> loop over the entries of a map that deletes or replaces the entry it is
  visiting: a fold over the entries as they were, acting on the map by key.
\<close>

definition deleteRsvpsOf :: "string \<Rightarrow> (string \<times> RsvpEntry) list \<Rightarrow> (string \<times> RsvpEntry) list" where
  "deleteRsvpsOf eid entries =
     fold (\<lambda>(key, entry) m. if eventId entry = eid then AList.delete key m else m) entries entries"

definition deleteEvent :: "Store \<Rightarrow> string \<Rightarrow> (error + unit) \<times> Store" where
  "deleteEvent s eid =
     (if map_of (events s) eid = None then (Inl (ValidationError ''Event not found''), s)
      else (Inr (), s\<lparr>rsvpEntries := deleteRsvpsOf eid (rsvpEntries s),
                      events := AList.delete eid (events s)\<rparr>))"

definition listEvents :: "Store \<Rightarrow> Event list" where
  "listEvents s = sort_key date (values (events s))"

definition cancelRsvp :: "Store \<Rightarrow> string \<Rightarrow> string \<Rightarrow> (error + unit) \<times> Store" where
  "cancelRsvp s eid pid =
     (let key = rsvpKey eid pid in
      if map_of (rsvpEntries s) key = None then (Inl (ValidationError ''RSVP not found''), s)
      else (Inr (), s\<lparr>rsvpEntries := AList.delete key (rsvpEntries s)\<rparr>))"

definition getEventRsvps :: "Store \<Rightarrow> string \<Rightarrow> error + RsvpEntry list" where
  "getEventRsvps s eid =
     (if map_of (events s) eid = None then Inl (ValidationError ''Event not found'')
      else Inr (sort_key updatedAt (filter (\<lambda>entry. eventId entry = eid) (values (rsvpEntries s)))))"

definition mergePlayer :: "Player \<Rightarrow> PlayerUpdate \<Rightarrow> Player" where
  "mergePlayer p update =
     p\<lparr>player_name := (case pu_name update of None \<Rightarrow> player_name p | Some v \<Rightarrow> v),
       player_email := (case pu_email update of None \<Rightarrow> player_email p | Some v \<Rightarrow> v)\<rparr>"

definition rewritePlayer ::
  "string \<Rightarrow> Player \<Rightarrow> (string \<times> RsvpEntry) list \<Rightarrow> (string \<times> RsvpEntry) list"
where
  "rewritePlayer pid updatedPlayer entries =
     fold (\<lambda>(key, entry) m.
             if player_id (player entry) = pid
             then AList.update key (entry\<lparr>player := updatedPlayer\<rparr>) m else m)
       entries entries"

definition updatePlayer :: "Store \<Rightarrow> string \<Rightarrow> PlayerUpdate \<Rightarrow> (error + unit) \<times> Store" where
  "updatePlayer s pid update =
     (case getPlayerById s pid of
        None \<Rightarrow> (Inl (ValidationError ''Player not found''), s)
      | Some p \<Rightarrow>
          (let updatedPlayer = mergePlayer p update in
           case validatePlayer updatedPlayer of
             Inl e \<Rightarrow> (Inl e, s)
           | Inr _ \<Rightarrow> (Inr (), s\<lparr>rsvpEntries := rewritePlayer pid updatedPlayer (rsvpEntries s)\<rparr>)))"

definition deleteRsvpsOfPlayer ::
  "string \<Rightarrow> (string \<times> RsvpEntry) list \<Rightarrow> (string \<times> RsvpEntry) list"
where
  "deleteRsvpsOfPlayer pid entries =
     fold (\<lambda>(key, entry) m. if player_id (player entry) = pid then AList.delete key m else m)
       entries entries"

definition removePlayer :: "Store \<Rightarrow> string \<Rightarrow> (error + unit) \<times> Store" where
  "removePlayer s pid =
     (if getPlayerById s pid = None then (Inl (ValidationError ''Player not found''), s)
      else (Inr (), s\<lparr>rsvpEntries := deleteRsvpsOfPlayer pid (rsvpEntries s)\<rparr>))"

definition addToWaitlist :: "Store \<Rightarrow> Date \<Rightarrow> string \<Rightarrow> Player \<Rightarrow> (error + WaitlistEntry) \<times> Store" where
  "addToWaitlist s now eid p =
     (case map_of (events s) eid of
        None \<Rightarrow> (Inl (ValidationError ''Event not found''), s)
      | Some event \<Rightarrow>
          if map_of (rsvpEntries s) (rsvpKey eid (player_id p)) \<noteq> None then
            (Inl (ValidationError ''Player already has an RSVP for this event''), s)
          else
            let entry = \<lparr>wl_eventId = eid, wl_player = p, joinedAt = now, notifiedAt = None\<rparr>;
                queue = (case map_of (waitlist s) eid of None \<Rightarrow> [] | Some q \<Rightarrow> q)
            in (Inr entry, s\<lparr>waitlist := AList.update eid (queue @ [entry]) (waitlist s)\<rparr>))"

text \<open>
  \<open>notifyWaitlist\<close> reads the clock once for each entry it stamps: \<open>clock i\<close> is the reading
  for the \<open>i\<close>-th entry of the slice.
\<close>

definition notifyWaitlist :: "Store \<Rightarrow> (nat \<Rightarrow> Date) \<Rightarrow> string \<Rightarrow> (error + Player list) \<times> Store" where
  "notifyWaitlist s clock eid =
     (case map_of (events s) eid of
        None \<Rightarrow> (Inl (ValidationError ''Event not found''), s)
      | Some event \<Rightarrow>
          (let currentPlayers = int (length (getConfirmedAttendees s));
               availableSpots = maxPlayers event - currentPlayers
           in if availableSpots \<le> 0 then (Inr [], s)
              else
                (case map_of (waitlist s) eid of
                   None \<Rightarrow> (Inr [], s)
                 | Some queue \<Rightarrow>
                     (let n = nat availableSpots;
                          stamped = map (\<lambda>(i, entry). entry\<lparr>notifiedAt := Some (clock i)\<rparr>)
                                      (enumerate 0 (take n queue))
                      in (Inr (map wl_player (take n queue)),
                          s\<lparr>waitlist := AList.update eid (stamped @ drop n queue) (waitlist s)\<rparr>)))))"

text \<open>\<open>setupReminders\<close> reads the clock twice: \<open>new Date()\<close> and then \<open>Date.now()\<close>.\<close>

definition setupReminders :: "Store \<Rightarrow> Date \<Rightarrow> Date \<Rightarrow> string \<Rightarrow> int \<Rightarrow> (error + unit) \<times> Store" where
  "setupReminders s now now' eid interval =
     (case map_of (events s) eid of
        None \<Rightarrow> (Inl (ValidationError ''Event not found''), s)
      | Some event \<Rightarrow>
          (let reminder = \<lparr>rem_eventId = eid, lastSentAt = now,
                           nextSendAt = now' + interval * 24 * 60 * 60 * 1000,
                           reminderInterval = interval\<rparr>
           in (Inr (), s\<lparr>reminders := AList.update eid reminder (reminders s)\<rparr>)))"

definition sendReminders :: "Store \<Rightarrow> Date \<Rightarrow> (error + Event list) \<times> Store" where
  "sendReminders s now =
     (case fold (\<lambda>(eid, reminder) (eventsToRemind, rems).
                   if nextSendAt reminder \<le> now then
                     (case map_of (events s) eid of
                        None \<Rightarrow> (eventsToRemind, rems)
                      | Some event \<Rightarrow>
                          (eventsToRemind @ [event],
                           AList.update eid
                             (reminder\<lparr>lastSentAt := now,
                                       nextSendAt := now + reminderInterval reminder * 24 * 60 * 60 * 1000\<rparr>)
                             rems))
                   else (eventsToRemind, rems))
             (reminders s) ([], reminders s) of
        (eventsToRemind, rems) \<Rightarrow> (Inr eventsToRemind, s\<lparr>reminders := rems\<rparr>))"

text \<open>
  \<open>cleanupData\<close>: \<open>options.maxAge || 30\<close> takes 30 when \<open>maxAge\<close> is absent and also when it
  is 0, which is falsy. The inner loop runs over the RSVP entries as they are when the
  event is reached.
\<close>

definition cleanupRsvps ::
  "string \<Rightarrow> (string \<times> RsvpEntry) list \<times> nat \<Rightarrow> (string \<times> RsvpEntry) list \<times> nat"
where
  "cleanupRsvps eid st =
     fold (\<lambda>(key, entry) (m, rsvpsCleaned).
             if eventId entry = eid then (AList.delete key m, rsvpsCleaned + 1)
             else (m, rsvpsCleaned))
       (fst st) st"

definition cleanupStep ::
  "Date \<Rightarrow> CleanupOptions \<Rightarrow> string \<times> Event \<Rightarrow>
   (string \<times> Event) list \<times> (string \<times> RsvpEntry) list \<times> nat \<times> nat \<Rightarrow>
   (string \<times> Event) list \<times> (string \<times> RsvpEntry) list \<times> nat \<times> nat"
where
  "cleanupStep cutoffDate options kv st =
     (case (kv, st) of
        ((eid, event), (evs, rsvps, eventsCleaned, rsvpsCleaned)) \<Rightarrow>
          if date event < cutoffDate then
            (let (evs', eventsCleaned') =
                   (if archive options = Some True
                    then (AList.update eid (event\<lparr>archived := Some True\<rparr>) evs, eventsCleaned)
                    else (AList.delete eid evs, eventsCleaned + 1));
                 (rsvps', rsvpsCleaned') =
                   (if includeRSVPs options = Some True
                    then cleanupRsvps eid (rsvps, rsvpsCleaned)
                    else (rsvps, rsvpsCleaned))
             in (evs', rsvps', eventsCleaned', rsvpsCleaned'))
          else (evs, rsvps, eventsCleaned, rsvpsCleaned))"

definition cleanupData :: "Store \<Rightarrow> Date \<Rightarrow> CleanupOptions \<Rightarrow> (error + nat \<times> nat) \<times> Store" where
  "cleanupData s now options =
     (let maxAge = (case maxAge options of None \<Rightarrow> 30 | Some m \<Rightarrow> if m = 0 then 30 else m);
          cutoffDate = now - maxAge * 24 * 60 * 60 * 1000
      in case fold (cleanupStep cutoffDate options) (events s) (events s, rsvpEntries s, 0, 0) of
           (evs, rsvps, eventsCleaned, rsvpsCleaned) \<Rightarrow>
             (Inr (eventsCleaned, rsvpsCleaned), s\<lparr>events := evs, rsvpEntries := rsvps\<rparr>))"

subsection \<open>Sequences of calls\<close>

text \<open>
  The public operations that can change the store, with their arguments and clock
  readings. The remaining public operations (\<open>getEvent\<close>, \<open>listEvents\<close>, \<open>getEventRsvps\<close>,
  \<open>getRsvpStats\<close>, \<open>getConfirmedAttendees\<close>, \<open>getEventStats\<close>, \<open>searchRsvps\<close>) only read it.
\<close>

datatype call =
    CreateEvent Date Event
  | UpdateRsvp Date string Player string "string option"
  | BatchUpdateRsvps "(Date \<times> BatchRsvpUpdate) list"
  | UpdateEvent Date string EventUpdate
  | DeleteEvent string
  | CancelRsvp string string
  | UpdatePlayer string PlayerUpdate
  | RemovePlayer string
  | AddToWaitlist Date string Player
  | NotifyWaitlist "nat \<Rightarrow> Date" string
  | SetupReminders Date Date string int
  | SendReminders Date
  | CleanupData Date CleanupOptions

fun exec :: "Store \<Rightarrow> call \<Rightarrow> Store" where
  "exec s (CreateEvent now event) = snd (createEvent s now event)"
| "exec s (UpdateRsvp now eid p st nts) = snd (updateRsvp s now eid p st nts)"
| "exec s (BatchUpdateRsvps updates) = snd (batchUpdateRsvps s updates)"
| "exec s (UpdateEvent now eid update) = snd (updateEvent s now eid update)"
| "exec s (DeleteEvent eid) = snd (deleteEvent s eid)"
| "exec s (CancelRsvp eid pid) = snd (cancelRsvp s eid pid)"
| "exec s (UpdatePlayer pid update) = snd (updatePlayer s pid update)"
| "exec s (RemovePlayer pid) = snd (removePlayer s pid)"
| "exec s (AddToWaitlist now eid p) = snd (addToWaitlist s now eid p)"
| "exec s (NotifyWaitlist clock eid) = snd (notifyWaitlist s clock eid)"
| "exec s (SetupReminders now now' eid interval) = snd (setupReminders s now now' eid interval)"
| "exec s (SendReminders now) = snd (sendReminders s now)"
| "exec s (CleanupData now options) = snd (cleanupData s now options)"

section \<open>Persistence (utils/storage)\<close>

text \<open>
  \<open>save\<close> hands the four maps, as arrays of key/value pairs, to \<open>JSON.stringify\<close> and writes
  the text; \<open>load\<close> reads the text, applies \<open>JSON.parse\<close> and builds a \<open>Map\<close> from each
  array. The values that travel are run-time JavaScript values, \<open>jsval\<close>; the file holds a
  JSON document, \<open>json\<close>, or does not exist. The text of the document is not modelled:
  \<open>JSON.parse\<close> reads back the document that \<open>JSON.stringify\<close> produced, and writing and
  reading the file succeed.
\<close>

datatype jsval =
    Undefined
  | Null
  | Boolean bool
  | Number int
  | String string
  | DateObj Date
  | Array "jsval list"
  | Object "(string \<times> jsval) list"

datatype json =
    JNull
  | JBool bool
  | JNumber int
  | JString string
  | JArray "json list"
  | JObject "(string \<times> json) list"

subsection \<open>\<open>Date.prototype.toISOString\<close>\<close>

fun pad :: "nat \<Rightarrow> nat \<Rightarrow> string" where
  "pad 0 n = []"
| "pad (Suc w) n = pad w (n div 10) @ [char_of (48 + n mod 10)]"

definition yearString :: "int \<Rightarrow> string" where
  "yearString y =
     (if 0 \<le> y \<and> y \<le> 9999 then pad 4 (nat y)
      else (if y < 0 then ''-'' else ''+'') @ pad 6 (nat \<bar>y\<bar>))"

text \<open>
  The UTC calendar date and time of a time value, as \<open>YYYY-MM-DDTHH:mm:ss.sssZ\<close> (years
  outside 0..9999 with a sign and six digits).
\<close>

definition toISOString :: "Date \<Rightarrow> string" where
  "toISOString t =
     (let days = t div 86400000;
          ms = t mod 86400000;
          z = days + 719468;
          era = z div 146097;
          doe = z mod 146097;
          yoe = (doe - doe div 1460 + doe div 36524 - doe div 146096) div 365;
          doy = doe - (365 * yoe + yoe div 4 - yoe div 100);
          mp = (5 * doy + 2) div 153;
          d = doy - (153 * mp + 2) div 5 + 1;
          m = (if mp < 10 then mp + 3 else mp - 9);
          y = yoe + era * 400 + (if m \<le> 2 then 1 else 0)
      in yearString y @ ''-'' @ pad 2 (nat m) @ ''-'' @ pad 2 (nat d) @ ''T'' @
         pad 2 (nat (ms div 3600000)) @ '':'' @ pad 2 (nat (ms div 60000 mod 60)) @ '':'' @
         pad 2 (nat (ms div 1000 mod 60)) @ ''.'' @ pad 3 (nat (ms mod 1000)) @ ''Z'')"

subsection \<open>\<open>JSON.stringify\<close> and \<open>JSON.parse\<close>\<close>

text \<open>
  \<open>JSON.stringify\<close>: a \<open>Date\<close> is written as the string its \<open>toJSON\<close> returns; a property whose
  value is \<open>undefined\<close> is left out of an object, and \<open>undefined\<close> in an array is written as
  \<open>null\<close>. The result for \<open>undefined\<close> itself is no document.
\<close>

fun JSON_stringify :: "jsval \<Rightarrow> json option" where
  "JSON_stringify Undefined = None"
| "JSON_stringify Null = Some JNull"
| "JSON_stringify (Boolean b) = Some (JBool b)"
| "JSON_stringify (Number n) = Some (JNumber n)"
| "JSON_stringify (String str) = Some (JString str)"
| "JSON_stringify (DateObj t) = Some (JString (toISOString t))"
| "JSON_stringify (Array xs) =
     Some (JArray (map (\<lambda>x. case JSON_stringify x of None \<Rightarrow> JNull | Some j \<Rightarrow> j) xs))"
| "JSON_stringify (Object kvs) =
     Some (JObject (concat (map (\<lambda>(k, v). case JSON_stringify v of
                                              None \<Rightarrow> [] | Some j \<Rightarrow> [(k, j)]) kvs)))"

text \<open>\<open>JSON.parse\<close> without a reviver: a string stays a string.\<close>

fun JSON_parse :: "json \<Rightarrow> jsval" where
  "JSON_parse JNull = Null"
| "JSON_parse (JBool b) = Boolean b"
| "JSON_parse (JNumber n) = Number n"
| "JSON_parse (JString str) = String str"
| "JSON_parse (JArray xs) = Array (map JSON_parse xs)"
| "JSON_parse (JObject kvs) = Object (map (\<lambda>(k, v). (k, JSON_parse v)) kvs)"

subsection \<open>The stored objects as run-time values\<close>

text \<open>
  An absent optional property is absent from the object, except \<open>notes\<close>, which
  \<open>updateRsvp\<close> always writes into the entry (as \<open>undefined\<close> when no notes are given).
\<close>

definition js_of_player :: "Player \<Rightarrow> jsval" where
  "js_of_player p =
     Object [(''id'', String (player_id p)), (''name'', String (player_name p)),
             (''email'', String (player_email p))]"

definition js_of_event :: "Event \<Rightarrow> jsval" where
  "js_of_event e =
     Object ([(''id'', String (event_id e)), (''name'', String (event_name e)),
              (''description'', String (description e)), (''date'', DateObj (date e)),
              (''location'', String (location e)), (''maxPlayers'', Number (maxPlayers e))] @
             (case archived e of None \<Rightarrow> [] | Some b \<Rightarrow> [(''archived'', Boolean b)]))"

definition js_of_entry :: "RsvpEntry \<Rightarrow> jsval" where
  "js_of_entry e =
     Object [(''eventId'', String (eventId e)), (''player'', js_of_player (player e)),
             (''status'', String (status e)), (''updatedAt'', DateObj (updatedAt e)),
             (''notes'', (case entry_notes e of None \<Rightarrow> Undefined | Some n \<Rightarrow> String n))]"

definition js_of_waitlistEntry :: "WaitlistEntry \<Rightarrow> jsval" where
  "js_of_waitlistEntry w =
     Object ([(''eventId'', String (wl_eventId w)), (''player'', js_of_player (wl_player w)),
              (''joinedAt'', DateObj (joinedAt w))] @
             (case notifiedAt w of None \<Rightarrow> [] | Some t \<Rightarrow> [(''notifiedAt'', DateObj t)]))"

definition js_of_reminder :: "EventReminder \<Rightarrow> jsval" where
  "js_of_reminder r =
     Object [(''eventId'', String (rem_eventId r)), (''lastSentAt'', DateObj (lastSentAt r)),
             (''nextSendAt'', DateObj (nextSendAt r)),
             (''reminderInterval'', Number (reminderInterval r))]"

text \<open>The \<open>StorageData\<close> interface at run time: four maps from keys to values.\<close>

record StorageData =
  sd_rsvpEntries :: "(jsval \<times> jsval) list"
  sd_events :: "(jsval \<times> jsval) list"
  sd_waitlist :: "(jsval \<times> jsval) list"
  sd_reminders :: "(jsval \<times> jsval) list"

definition storage_data_of :: "Store \<Rightarrow> StorageData" where
  "storage_data_of s =
     \<lparr>sd_rsvpEntries = map (\<lambda>(k, v). (String k, js_of_entry v)) (rsvpEntries s),
      sd_events = map (\<lambda>(k, v). (String k, js_of_event v)) (events s),
      sd_waitlist = map (\<lambda>(k, v). (String k, Array (map js_of_waitlistEntry v))) (waitlist s),
      sd_reminders = map (\<lambda>(k, v). (String k, js_of_reminder v)) (reminders s)\<rparr>"

subsection \<open>\<open>FileStorage.save\<close> and \<open>FileStorage.load\<close>\<close>

definition entries_array :: "(jsval \<times> jsval) list \<Rightarrow> jsval" where
  "entries_array m = Array (map (\<lambda>(k, v). Array [k, v]) m)"

text \<open>The document that \<open>save\<close> writes to the data file.\<close>

definition save :: "StorageData \<Rightarrow> json option" where
  "save data =
     JSON_stringify
       (Object [(''rsvpEntries'', entries_array (sd_rsvpEntries data)),
                (''events'', entries_array (sd_events data)),
                (''waitlist'', entries_array (sd_waitlist data)),
                (''reminders'', entries_array (sd_reminders data))])"

text \<open>
  Reading a property: a \<open>TypeError\<close> on \<open>null\<close> and \<open>undefined\<close>, the value of the property on
  an object, \<open>undefined\<close> where there is no such property.
\<close>

definition get_prop :: "jsval \<Rightarrow> string \<Rightarrow> error + jsval" where
  "get_prop v name =
     (case v of
        Undefined \<Rightarrow> Inl (StorageError ''Failed to load data: TypeError'')
      | Null \<Rightarrow> Inl (StorageError ''Failed to load data: TypeError'')
      | Object kvs \<Rightarrow> (case map_of kvs name of None \<Rightarrow> Inr Undefined | Some x \<Rightarrow> Inr x)
      | _ \<Rightarrow> Inr Undefined)"

definition is_primitive :: "jsval \<Rightarrow> bool" where
  "is_primitive v = (case v of DateObj _ \<Rightarrow> False | Array _ \<Rightarrow> False | Object _ \<Rightarrow> False | _ \<Rightarrow> True)"

text \<open>
  \<open>Map.prototype.set\<close>: primitive keys are compared by value; an object is a key of its
  own.
\<close>

definition map_set :: "jsval \<Rightarrow> jsval \<Rightarrow> (jsval \<times> jsval) list \<Rightarrow> (jsval \<times> jsval) list" where
  "map_set k v m = (if is_primitive k then AList.update k v m else m @ [(k, v)])"

definition entry_of_item :: "jsval \<Rightarrow> error + jsval \<times> jsval" where
  "entry_of_item item =
     (case item of
        Array xs \<Rightarrow> Inr (if 0 < length xs then xs ! 0 else Undefined,
                          if 1 < length xs then xs ! 1 else Undefined)
      | Object kvs \<Rightarrow> Inr (case map_of kvs ''0'' of None \<Rightarrow> Undefined | Some x \<Rightarrow> x,
                            case map_of kvs ''1'' of None \<Rightarrow> Undefined | Some x \<Rightarrow> x)
      | DateObj _ \<Rightarrow> Inr (Undefined, Undefined)
      | _ \<Rightarrow> Inl (StorageError ''Failed to load data: TypeError''))"

fun add_items :: "jsval list \<Rightarrow> (jsval \<times> jsval) list \<Rightarrow> error + (jsval \<times> jsval) list" where
  "add_items [] m = Inr m"
| "add_items (item # items) m =
     (case entry_of_item item of
        Inl e \<Rightarrow> Inl e
      | Inr (k, v) \<Rightarrow> add_items items (map_set k v m))"

text \<open>
  \<open>new Map(iterable)\<close>: empty for \<open>undefined\<close> and \<open>null\<close>; the entries of an array; a
  \<open>TypeError\<close> for a value that is not iterable or yields an item that is not an object (a
  non-empty string yields its characters).
\<close>

definition new_Map :: "jsval \<Rightarrow> error + (jsval \<times> jsval) list" where
  "new_Map iterable =
     (case iterable of
        Undefined \<Rightarrow> Inr []
      | Null \<Rightarrow> Inr []
      | Array items \<Rightarrow> add_items items []
      | String str \<Rightarrow> (if str = [] then Inr [] else Inl (StorageError ''Failed to load data: TypeError''))
      | _ \<Rightarrow> Inl (StorageError ''Failed to load data: TypeError''))"

definition load_map :: "jsval \<Rightarrow> string \<Rightarrow> error + (jsval \<times> jsval) list" where
  "load_map parsedData name =
     (case get_prop parsedData name of Inl e \<Rightarrow> Inl e | Inr v \<Rightarrow> new_Map v)"

text \<open>\<open>load\<close> of the data file: \<open>None\<close> when the file does not exist.\<close>

definition load :: "json option \<Rightarrow> error + StorageData" where
  "load file =
     (case file of
        None \<Rightarrow> Inr \<lparr>sd_rsvpEntries = [], sd_events = [], sd_waitlist = [], sd_reminders = []\<rparr>
      | Some document \<Rightarrow>
          (let parsedData = JSON_parse document in
           case load_map parsedData ''rsvpEntries'' of
             Inl e \<Rightarrow> Inl e
           | Inr rs \<Rightarrow>
               (case load_map parsedData ''events'' of
                  Inl e \<Rightarrow> Inl e
                | Inr es \<Rightarrow>
                    (case load_map parsedData ''waitlist'' of
                       Inl e \<Rightarrow> Inl e
                     | Inr ws \<Rightarrow>
                         (case load_map parsedData ''reminders'' of
                            Inl e \<Rightarrow> Inl e
                          | Inr ms \<Rightarrow>
                              Inr \<lparr>sd_rsvpEntries = rs, sd_events = es, sd_waitlist = ws,
                                   sd_reminders = ms\<rparr>)))))"

section \<open>Example values and specification-level definitions\<close>

subsection \<open>Example values\<close>

text \<open>The event and players of the service's test suite, with fixed clock readings.\<close>

definition test_event :: Event where
  "test_event =
     \<lparr>event_id = ''1'', event_name = ''Test Event'', description = ''Test Description'',
      date = 1700086400000, location = ''Test Location'', maxPlayers = 2, archived = None\<rparr>"

definition player_a :: Player where
  "player_a = \<lparr>player_id = ''1'', player_name = ''Test Player'', player_email = ''test@example.com''\<rparr>"

definition player_b :: Player where
  "player_b = \<lparr>player_id = ''2'', player_name = ''Test Player'', player_email = ''test@example.com''\<rparr>"

definition player_c :: Player where
  "player_c = \<lparr>player_id = ''3'', player_name = ''Test Player'', player_email = ''test@example.com''\<rparr>"

definition past_event :: Event where
  "past_event =
     \<lparr>event_id = ''1'', event_name = ''Test Event'', description = ''Test Description'',
      date = 1699913600000, location = ''Test Location'', maxPlayers = 2, archived = None\<rparr>"

definition past_store :: Store where
  "past_store = empty_store\<lparr>events := [(''1'', past_event)]\<rparr>"

text \<open>The store after the test event has been created and two players have said "Yes".\<close>

definition entry_a :: RsvpEntry where
  "entry_a = \<lparr>eventId = ''1'', player = player_a, status = ''Yes'',
              updatedAt = 1700000000001, entry_notes = None\<rparr>"

definition entry_b :: RsvpEntry where
  "entry_b = \<lparr>eventId = ''1'', player = player_b, status = ''Yes'',
              updatedAt = 1700000000002, entry_notes = None\<rparr>"

definition full_store :: Store where
  "full_store = empty_store\<lparr>events := [(''1'', test_event)],
                            rsvpEntries := [(''1-1'', entry_a), (''1-2'', entry_b)]\<rparr>"

definition nameless_player :: Player where
  "nameless_player = \<lparr>player_id = ''1'', player_name = '''', player_email = ''test@example.com''\<rparr>"

text \<open>Batch updates used as examples.\<close>

definition upd_a_no :: BatchRsvpUpdate where
  "upd_a_no = \<lparr>bu_eventId = ''1'', bu_playerId = ''1'', bu_status = ''No'', bu_notes = None\<rparr>"

definition upd_unknown_player :: BatchRsvpUpdate where
  "upd_unknown_player =
     \<lparr>bu_eventId = ''1'', bu_playerId = ''9'', bu_status = ''Maybe'', bu_notes = None\<rparr>"

definition upd_b_maybe :: BatchRsvpUpdate where
  "upd_b_maybe = \<lparr>bu_eventId = ''1'', bu_playerId = ''2'', bu_status = ''Maybe'', bu_notes = None\<rparr>"

definition upd_unknown_both :: BatchRsvpUpdate where
  "upd_unknown_both =
     \<lparr>bu_eventId = ''x'', bu_playerId = ''p'', bu_status = ''Yes'', bu_notes = None\<rparr>"

text \<open>
  A store with two events, three RSVP entries (player 1 for both events, player 2 for the
  first), a waitlist and a reminder.
\<close>

definition second_event :: Event where
  "second_event =
     \<lparr>event_id = ''2'', event_name = ''Second Event'', description = ''Another one'',
      date = 1700172800000, location = ''Elsewhere'', maxPlayers = 5, archived = None\<rparr>"

definition entry_a2 :: RsvpEntry where
  "entry_a2 = \<lparr>eventId = ''2'', player = player_a, status = ''Maybe'',
               updatedAt = 1700000000003, entry_notes = Some ''late''\<rparr>"

definition waiting_c :: WaitlistEntry where
  "waiting_c = \<lparr>wl_eventId = ''1'', wl_player = player_c, joinedAt = 1700000000004,
                notifiedAt = None\<rparr>"

definition reminder_1 :: EventReminder where
  "reminder_1 = \<lparr>rem_eventId = ''1'', lastSentAt = 1700000000005,
                 nextSendAt = 1700086400005, reminderInterval = 1\<rparr>"

definition busy_store :: Store where
  "busy_store =
     \<lparr>rsvpEntries = [(''1-1'', entry_a), (''1-2'', entry_b), (''2-1'', entry_a2)],
      events = [(''1'', test_event), (''2'', second_event)],
      waitlist = [(''1'', [waiting_c])],
      reminders = [(''1'', reminder_1)]\<rparr>"

definition no_options :: SearchOptions where
  "no_options = \<lparr>so_eventId = None, so_playerName = None, so_status = None, so_startDate = None\<rparr>"

definition rename_a :: PlayerUpdate where
  "rename_a = \<lparr>pu_name = Some ''Renamed Player'', pu_email = None\<rparr>"

subsection \<open>What \<open>searchRsvps\<close> is specified to return\<close>

text \<open>
  The filters in the words of the specification: an entry passes when it matches the
  event id exactly if one is provided, when its player's name contains the provided
  name irrespective of case, when its status equals the provided status, and, for a
  provided start date, when the event referenced by the provided event id is dated at
  or after it (the start date is not applied without an event id or when that event is
  not in the store).
\<close>

definition passes_filters :: "Store \<Rightarrow> SearchOptions \<Rightarrow> RsvpEntry \<Rightarrow> bool" where
  "passes_filters s options entry =
     ((case so_eventId options of None \<Rightarrow> True | Some eid \<Rightarrow> eventId entry = eid) \<and>
      (case so_playerName options of
         None \<Rightarrow> True
       | Some n \<Rightarrow> includes_str (toLowerCase (player_name (player entry))) (toLowerCase n)) \<and>
      (case so_status options of None \<Rightarrow> True | Some st \<Rightarrow> status entry = st) \<and>
      (case so_startDate options of
         None \<Rightarrow> True
       | Some start \<Rightarrow>
           (case so_eventId options of
              None \<Rightarrow> True
            | Some eid \<Rightarrow>
                (case map_of (events s) eid of
                   None \<Rightarrow> True
                 | Some event \<Rightarrow> start \<le> date event))))"

text \<open>
  The filters that are applied: as above, except that an event id or a status given as
  the empty string selects nothing out (no event-id filter, no status filter). The
  start date still looks the event up under the event id as it was given.
\<close>

definition applied_filters :: "Store \<Rightarrow> SearchOptions \<Rightarrow> RsvpEntry \<Rightarrow> bool" where
  "applied_filters s options entry =
     ((case so_eventId options of None \<Rightarrow> True | Some eid \<Rightarrow> eid = [] \<or> eventId entry = eid) \<and>
      (case so_playerName options of
         None \<Rightarrow> True
       | Some n \<Rightarrow> includes_str (toLowerCase (player_name (player entry))) (toLowerCase n)) \<and>
      (case so_status options of None \<Rightarrow> True | Some st \<Rightarrow> st = [] \<or> status entry = st) \<and>
      (case so_startDate options of
         None \<Rightarrow> True
       | Some start \<Rightarrow>
           (case so_eventId options of
              None \<Rightarrow> True
            | Some eid \<Rightarrow>
                (case map_of (events s) eid of
                   None \<Rightarrow> True
                 | Some event \<Rightarrow> start \<le> date event))))"

definition empty_id_options :: SearchOptions where
  "empty_id_options =
     \<lparr>so_eventId = Some '''', so_playerName = None, so_status = None, so_startDate = None\<rparr>"

definition test_options :: SearchOptions where
  "test_options =
     \<lparr>so_eventId = Some ''1'', so_playerName = Some ''PLAYER'', so_status = Some ''Yes'',
      so_startDate = Some 1700000000000\<rparr>"

subsection \<open>The capacity invariant\<close>

definition yesCountFor :: "Store \<Rightarrow> string \<Rightarrow> nat" where
  "yesCountFor s eid =
     length (filter (\<lambda>entry. eventId entry = eid \<and> status entry = ''Yes'')
       (values (rsvpEntries s)))"

definition capacity_respected :: "Store \<Rightarrow> bool" where
  "capacity_respected s =
     (\<forall>event \<in> set (values (events s)). int (yesCountFor s (event_id event)) \<le> maxPlayers event)"

text \<open>
  \<open>createEvent\<close> and \<open>updateEvent\<close> store a capacity without looking at the RSVP entries.
  A call keeps the capacity unless it succeeds and the event it stores has a capacity
  below the number of "Yes" entries already held for that event's id. A call that fails
  stores nothing and keeps the capacity, whatever its arguments.
\<close>

fun keeps_capacity :: "Store \<Rightarrow> call \<Rightarrow> bool" where
  "keeps_capacity s (CreateEvent now event) =
     (case fst (createEvent s now event) of
        Inl _ \<Rightarrow> True
      | Inr stored \<Rightarrow> int (yesCountFor s (event_id stored)) \<le> maxPlayers stored)"
| "keeps_capacity s (UpdateEvent now eid update) =
     (case fst (updateEvent s now eid update) of
        Inl _ \<Rightarrow> True
      | Inr stored \<Rightarrow> int (yesCountFor s (event_id stored)) \<le> maxPlayers stored)"
| "keeps_capacity s _ = True"

fun admissible :: "Store \<Rightarrow> call list \<Rightarrow> bool" where
  "admissible s [] = True"
| "admissible s (c # cs) = (keeps_capacity s c \<and> admissible (exec s c) cs)"

definition run :: "Store \<Rightarrow> call list \<Rightarrow> Store" where
  "run s cs = fold (\<lambda>c s. exec s c) cs s"

definition store_inv :: "Store \<Rightarrow> bool" where
  "store_inv s =
     (distinct (map fst (events s)) \<and> list_all (\<lambda>kv. event_id (snd kv) = fst kv) (events s) \<and>
      distinct (map fst (rsvpEntries s)) \<and> capacity_respected s)"

definition lower_capacity :: EventUpdate where
  "lower_capacity = \<lparr>eu_name = None, eu_description = None, eu_date = None, eu_location = None,
                      eu_maxPlayers = Some 1\<rparr>"

definition zero_capacity :: EventUpdate where
  "zero_capacity = \<lparr>eu_name = None, eu_description = None, eu_date = None, eu_location = None,
                     eu_maxPlayers = Some 0\<rparr>"

text \<open>
  What the loop of \<open>cleanupData\<close> maintains, relative to the events \<open>evs0\<close> and entries \<open>xs0\<close>
  it started from: the entries are a selection of \<open>xs0\<close>, the event keys stay distinct, and
  every event kept has the key, id and capacity of an event of \<open>evs0\<close>.
\<close>

definition cleanup_inv ::
  "(string \<times> Event) list \<Rightarrow> (string \<times> RsvpEntry) list \<Rightarrow>
   (string \<times> Event) list \<times> (string \<times> RsvpEntry) list \<times> nat \<times> nat \<Rightarrow> bool"
where
  "cleanup_inv evs0 xs0 st =
     (case st of
        (evs, xs, eventsCleaned, rsvpsCleaned) \<Rightarrow>
          (\<exists>Q. xs = filter Q xs0) \<and> distinct (map fst evs) \<and>
          (\<forall>kv \<in> set evs. \<exists>e0. (fst kv, e0) \<in> set evs0 \<and>
                maxPlayers (snd kv) = maxPlayers e0 \<and> event_id (snd kv) = event_id e0))"

definition scenario_calls :: "call list" where
  "scenario_calls =
     [CreateEvent 1700000000000 test_event,
      UpdateRsvp 1700000000001 ''1'' player_a ''Yes'' None,
      UpdateRsvp 1700000000002 ''1'' player_b ''Yes'' None]"

section \<open>Verified properties\<close>

subsection \<open>Statistics\<close>

lemma status_counts_le:
  "length (filter (\<lambda>entry. status entry = ''Yes'') xs) +
   length (filter (\<lambda>entry. status entry = ''No'') xs) +
   length (filter (\<lambda>entry. status entry = ''Maybe'') xs) \<le> length xs"
  by (induction xs) auto

lemma rate_le:
  assumes "a \<le> b" and "0 < b"
  shows "real a / real b * 100 \<le> 100"
proof -
  have "real a / real b \<le> 1" using assms by (simp add: divide_le_eq)
  then have "real a / real b * 100 \<le> 1 * 100" by (rule mult_right_mono) simp
  then show ?thesis by simp
qed

text \<open>
  Claim C5. For every store, \<open>getRsvpStats\<close> counts all entries in \<open>total\<close>; the three status
  counts together do not exceed \<open>total\<close>; both rates lie between 0 and 100; the
  attendance rate is confirmed / total * 100 and the response rate is
  (confirmed + declined + maybe) / total * 100 when \<open>total\<close> is positive, and both are 0
  when \<open>total\<close> is 0.
\<close>

theorem getRsvpStats_bounds:
  "total (getRsvpStats s) = length (rsvpEntries s) \<and>
   confirmed (getRsvpStats s) + declined (getRsvpStats s) + maybe (getRsvpStats s)
     \<le> total (getRsvpStats s) \<and>
   0 \<le> attendanceRate (getRsvpStats s) \<and> attendanceRate (getRsvpStats s) \<le> 100 \<and>
   0 \<le> responseRate (getRsvpStats s) \<and> responseRate (getRsvpStats s) \<le> 100 \<and>
   attendanceRate (getRsvpStats s) =
     (if total (getRsvpStats s) > 0
      then real (confirmed (getRsvpStats s)) / real (total (getRsvpStats s)) * 100 else 0) \<and>
   responseRate (getRsvpStats s) =
     (if total (getRsvpStats s) > 0
      then real (confirmed (getRsvpStats s) + declined (getRsvpStats s) + maybe (getRsvpStats s))
           / real (total (getRsvpStats s)) * 100
      else 0)"
proof -
  let ?xs = "values (rsvpEntries s)"
  let ?c = "length (filter (\<lambda>entry. status entry = ''Yes'') ?xs)"
  let ?d = "length (filter (\<lambda>entry. status entry = ''No'') ?xs)"
  let ?m = "length (filter (\<lambda>entry. status entry = ''Maybe'') ?xs)"
  have le: "?c + ?d + ?m \<le> length ?xs" by (rule status_counts_le)
  have c_le: "?c \<le> length ?xs" by simp
  have r1: "real ?c / real (length ?xs) * 100 \<le> 100" if "0 < length ?xs"
    using rate_le [OF c_le that] .
  have r2: "real (?c + ?d + ?m) / real (length ?xs) * 100 \<le> 100" if "0 < length ?xs"
    using rate_le [OF le that] .
  show ?thesis
    using le r1 r2 by (simp add: getRsvpStats_def Let_def values_def)
qed

subsection \<open>Capacity scenario\<close>

lemma valid_examples:
  "validateEvent 1700000000000 test_event = Inr ()"
  "validatePlayer player_a = Inr ()" "validatePlayer player_b = Inr ()"
  "validatePlayer player_c = Inr ()"
  by (simp_all add: validateEvent_def validatePlayer_def test_event_def player_a_def
      player_b_def player_c_def trim_def isWhiteSpace_def isValidEmail_def emailChar_def)

lemma length_getConfirmedAttendees:
  "length (getConfirmedAttendees s) =
   length (filter (\<lambda>entry. status entry = ''Yes'') (map snd (rsvpEntries s)))"
  by (simp add: getConfirmedAttendees_def values_def)

lemma rsvpKey_inj [simp]: "rsvpKey eid p = rsvpKey eid q \<longleftrightarrow> p = q"
  by (simp add: rsvpKey_def)

text \<open>
  Claim C4. From the empty store, after creating an event with id "1", capacity 2 and a
  date not in the past: \<open>updateRsvp\<close> with "Yes" succeeds for player A and for player B,
  fails with the capacity validation error for player C (leaving the store as it was),
  then succeeds for A with "No", after which C's "Yes" succeeds. A, B and C are any
  valid players with distinct ids, at any clock readings and with any notes.
\<close>

theorem capacity_scenario:
  assumes ev: "event_id e = ''1''" "maxPlayers e = 2" "validateEvent t0 e = Inr ()"
      and valid: "validatePlayer a = Inr ()" "validatePlayer b = Inr ()" "validatePlayer c = Inr ()"
      and dist: "player_id a \<noteq> player_id b" "player_id a \<noteq> player_id c"
                "player_id b \<noteq> player_id c"
  shows "let (r0, s1) = createEvent empty_store t0 e;
             (r1, s2) = updateRsvp s1 t1 ''1'' a ''Yes'' n1;
             (r2, s3) = updateRsvp s2 t2 ''1'' b ''Yes'' n2;
             (r3, s4) = updateRsvp s3 t3 ''1'' c ''Yes'' n3;
             (r4, s5) = updateRsvp s4 t4 ''1'' a ''No'' n4;
             (r5, s6) = updateRsvp s5 t5 ''1'' c ''Yes'' n5
         in r0 = Inr e \<and>
            r1 = Inr \<lparr>eventId = ''1'', player = a, status = ''Yes'', updatedAt = t1, entry_notes = n1\<rparr> \<and>
            r2 = Inr \<lparr>eventId = ''1'', player = b, status = ''Yes'', updatedAt = t2, entry_notes = n2\<rparr> \<and>
            r3 = Inl (ValidationError ''Event is at maximum capacity'') \<and> s4 = s3 \<and>
            r4 = Inr \<lparr>eventId = ''1'', player = a, status = ''No'', updatedAt = t4, entry_notes = n4\<rparr> \<and>
            r5 = Inr \<lparr>eventId = ''1'', player = c, status = ''Yes'', updatedAt = t5, entry_notes = n5\<rparr>"
  using assms
  by (simp add: createEvent_def updateRsvp_def empty_store_def validateRsvpStatus_def
      validStatuses_def length_getConfirmedAttendees Let_def)

theorem capacity_scenario_witness:
  "validateEvent 1700000000000 test_event = Inr () \<and>
   validatePlayer player_a = Inr () \<and> validatePlayer player_b = Inr () \<and>
   validatePlayer player_c = Inr () \<and>
   (let (r0, s1) = createEvent empty_store 1700000000000 test_event;
        (r1, s2) = updateRsvp s1 1700000000001 ''1'' player_a ''Yes'' None;
        (r2, s3) = updateRsvp s2 1700000000002 ''1'' player_b ''Yes'' None;
        (r3, s4) = updateRsvp s3 1700000000003 ''1'' player_c ''Yes'' None;
        (r4, s5) = updateRsvp s4 1700000000004 ''1'' player_a ''No'' None;
        (r5, s6) = updateRsvp s5 1700000000005 ''1'' player_c ''Yes'' None
    in r0 = Inr test_event \<and>
       r1 = Inr \<lparr>eventId = ''1'', player = player_a, status = ''Yes'',
                  updatedAt = 1700000000001, entry_notes = None\<rparr> \<and>
       r2 = Inr \<lparr>eventId = ''1'', player = player_b, status = ''Yes'',
                  updatedAt = 1700000000002, entry_notes = None\<rparr> \<and>
       r3 = Inl (ValidationError ''Event is at maximum capacity'') \<and> s4 = s3 \<and>
       r4 = Inr \<lparr>eventId = ''1'', player = player_a, status = ''No'',
                  updatedAt = 1700000000004, entry_notes = None\<rparr> \<and>
       r5 = Inr \<lparr>eventId = ''1'', player = player_c, status = ''Yes'',
                  updatedAt = 1700000000005, entry_notes = None\<rparr>)"
proof -
  have ev: "event_id test_event = ''1''" "maxPlayers test_event = 2"
    by (simp_all add: test_event_def)
  have dist: "player_id player_a \<noteq> player_id player_b"
    "player_id player_a \<noteq> player_id player_c" "player_id player_b \<noteq> player_id player_c"
    by (simp_all add: player_a_def player_b_def player_c_def)
  show ?thesis
    using capacity_scenario [OF ev valid_examples dist, of 1700000000001 None 1700000000002 None
        1700000000003 None 1700000000004 None 1700000000005 None]
      valid_examples
    by simp
qed

subsection \<open>Cleanup\<close>

text \<open>
  Claim C2, evaluated on the code. An event created for a date that is by now one day in
  the past; \<open>cleanupData\<close> with \<open>maxAge = 0\<close> and \<open>archive = true\<close> returns zero for both
  counts and leaves the store as it was: the event is still retrievable but its
  \<open>archived\<close> flag is not set, because a \<open>maxAge\<close> of 0 is replaced by the default of 30
  days.
\<close>

theorem cleanupData_maxAge_zero_keeps_default:
  "createEvent empty_store 1699900000000 past_event = (Inr past_event, past_store) \<and>
   date past_event = 1700000000000 - 1 * 24 * 60 * 60 * 1000 \<and>
   cleanupData past_store 1700000000000 \<lparr>maxAge = Some 0, archive = Some True, includeRSVPs = None\<rparr>
     = (Inr (0, 0), past_store) \<and>
   map_option archived (getEvent past_store ''1'') = Some None"
  by (simp add: createEvent_def validateEvent_def trim_def isWhiteSpace_def past_event_def
      past_store_def empty_store_def cleanupData_def cleanupStep_def getEvent_def)

subsection \<open>Capacity check of \<open>updateRsvp\<close>\<close>

lemma full_store_reached:
  "fold (\<lambda>c s. exec s c)
     [CreateEvent 1700000000000 test_event,
      UpdateRsvp 1700000000001 ''1'' player_a ''Yes'' None,
      UpdateRsvp 1700000000002 ''1'' player_b ''Yes'' None] empty_store = full_store"
  using valid_examples
  by (simp add: createEvent_def updateRsvp_def empty_store_def validateRsvpStatus_def
      validStatuses_def length_getConfirmedAttendees Let_def full_store_def entry_a_def entry_b_def
      test_event_def player_a_def player_b_def rsvpKey_def values_def)

lemma full_store_facts:
  "map_of (events full_store) ''1'' = Some test_event"
  "maxPlayers test_event \<le>
     int (length (filter (\<lambda>entry. status entry = ''Yes'') (values (rsvpEntries full_store))))"
  "map_option status (map_of (rsvpEntries full_store) (rsvpKey ''1'' ''1'')) = Some ''Yes''"
  by (simp_all add: full_store_def empty_store_def test_event_def entry_a_def entry_b_def
      values_def rsvpKey_def)

text \<open>
  Claim C10 as stated fails: the player is validated before the capacity is checked. In
  the full store, \<open>updateRsvp\<close> with "Yes" for a player whose name is empty (and whose id
  is that of a confirmed player) fails with the player-name validation error, not with
  the capacity error.
\<close>

theorem updateRsvp_invalid_player_at_capacity:
  "map_of (events full_store) ''1'' = Some test_event \<and>
   maxPlayers test_event \<le>
     int (length (filter (\<lambda>entry. status entry = ''Yes'') (values (rsvpEntries full_store)))) \<and>
   updateRsvp full_store 1700000000003 ''1'' nameless_player ''Yes'' None =
     (Inl (ValidationError ''Player name is required and must be a non-empty string''), full_store)"
  using full_store_facts
  by (simp add: updateRsvp_def validatePlayer_def nameless_player_def)

text \<open>
  Claim C10, amended. In every store in which the number of entries with status "Yes",
  over all events, is at least the capacity of event E, every call of \<open>updateRsvp\<close> for E
  with status "Yes" and a valid player fails with the capacity validation error and
  leaves the store unchanged, whatever entry the player already has, also when the
  player's entry for E is already "Yes".
\<close>

theorem updateRsvp_at_capacity:
  assumes "map_of (events s) eid = Some event"
      and "validatePlayer p = Inr ()"
      and "maxPlayers event \<le>
             int (length (filter (\<lambda>entry. status entry = ''Yes'') (values (rsvpEntries s))))"
  shows "updateRsvp s now eid p ''Yes'' nts =
           (Inl (ValidationError ''Event is at maximum capacity''), s)"
  using assms
  by (simp add: updateRsvp_def validateRsvpStatus_def validStatuses_def
      length_getConfirmedAttendees values_def)

theorem updateRsvp_at_capacity_witness:
  "map_of (events full_store) ''1'' = Some test_event \<and>
   validatePlayer player_a = Inr () \<and>
   maxPlayers test_event \<le>
     int (length (filter (\<lambda>entry. status entry = ''Yes'') (values (rsvpEntries full_store)))) \<and>
   map_option status (map_of (rsvpEntries full_store) (rsvpKey ''1'' (player_id player_a)))
     = Some ''Yes'' \<and>
   updateRsvp full_store 1700000000003 ''1'' player_a ''Yes'' (Some ''new notes'') =
     (Inl (ValidationError ''Event is at maximum capacity''), full_store)"
proof -
  have y: "map_option status (map_of (rsvpEntries full_store) (rsvpKey ''1'' (player_id player_a)))
     = Some ''Yes''"
    using full_store_facts(3) by (simp add: player_a_def)
  show ?thesis
    using updateRsvp_at_capacity [OF full_store_facts(1) valid_examples(2) full_store_facts(2),
        of 1700000000003 "Some ''new notes''"]
      full_store_facts(1,2) y valid_examples(2)
    by simp
qed

subsection \<open>Batch update\<close>

lemma validatePlayer_error: "validatePlayer p = Inl err \<Longrightarrow> \<exists>m. err = ValidationError m"
  by (auto simp: validatePlayer_def split: if_splits)

lemma updateRsvp_error:
  assumes "updateRsvp s now eid p st nts = (Inl err, s')"
  shows "s' = s \<and> (\<exists>m. err = ValidationError m)"
  using assms
  by (auto simp: updateRsvp_def validateRsvpStatus_def Let_def
      split: option.splits sum.splits if_splits dest: validatePlayer_error)

lemma batchItem_error:
  assumes "batchItem s now u = (Inl err, s')"
  shows "s' = s \<and> (\<exists>m. err = ValidationError m)"
  using assms
  by (auto simp: batchItem_def split: option.splits dest: updateRsvp_error)

lemma batchLoop_append:
  "batchLoop s pre acc = (Inr rs, s') \<Longrightarrow> batchLoop s (pre @ rest) acc = batchLoop s' rest rs"
proof (induction pre arbitrary: s acc)
  case Nil
  then show ?case by simp
next
  case (Cons x pre)
  obtain now u where x: "x = (now, u)" by (cases x)
  obtain r s1 where item: "batchItem s now u = (r, s1)" by (cases "batchItem s now u")
  show ?case
  proof (cases r)
    case (Inl e)
    with Cons.prems x item show ?thesis by simp
  next
    case (Inr entry)
    with Cons.prems x item have "batchLoop s1 pre (acc @ [entry]) = (Inr rs, s')" by simp
    from Cons.IH [OF this] x item Inr show ?thesis by simp
  qed
qed

lemma batchUpdateRsvps_ok:
  "batchUpdateRsvps s updates = (Inr rs, s') \<longleftrightarrow> batchLoop s updates [] = (Inr rs, s')"
  by (cases "batchLoop s updates []")
    (auto simp: batchUpdateRsvps_def rethrow_def split: sum.splits error.splits)

lemma getPlayerById_None:
  "getPlayerById s pid = None \<longleftrightarrow>
   pid \<notin> set (map (\<lambda>entry. player_id (player entry)) (values (rsvpEntries s)))"
  by (auto simp: getPlayerById_def find_None_iff)

lemma batch_fails_at:
  assumes pre: "batchUpdateRsvps s pre = (Inr rs, s')"
      and item: "fst (batchItem s' now u) = Inl err"
  shows "batchUpdateRsvps s (pre @ (now, u) # post) = (Inl err, s')"
proof -
  obtain s2 where i: "batchItem s' now u = (Inl err, s2)"
    using item by (cases "batchItem s' now u") simp
  from batchItem_error [OF i] obtain m where s2: "s2 = s'" and m: "err = ValidationError m"
    by blast
  have "batchLoop s (pre @ (now, u) # post) [] = batchLoop s' ((now, u) # post) rs"
    using pre by (simp add: batchUpdateRsvps_ok batchLoop_append)
  also have "\<dots> = (Inl err, s')" using i s2 by simp
  finally show ?thesis by (simp add: batchUpdateRsvps_def rethrow_def m)
qed

text \<open>
  Claim C7 as stated fails: the event of an update is resolved before its player. On the
  empty store an update naming an unknown event and an unknown player fails with the
  event-not-found validation error.
\<close>

theorem batch_unknown_event_first:
  "getPlayerById empty_store (bu_playerId upd_unknown_both) = None \<and>
   batchUpdateRsvps empty_store [(1700000000000, upd_unknown_both)] =
     (Inl (ValidationError ''Event not found: x''), empty_store)"
  by (simp add: batchUpdateRsvps_def batchItem_def rethrow_def empty_store_def
      upd_unknown_both_def getPlayerById_def values_def)

text \<open>
  Claim C7, amended. Let the updates \<open>pre\<close> all succeed from store \<open>s\<close>, leaving store \<open>s'\<close>.
  If the next update names an event of \<open>s'\<close> and a player id that no RSVP entry of \<open>s'\<close>
  carries, the whole batch fails with the player-not-found validation error; and
  whatever error the next update fails with, the batch fails with that error, the
  updates after it are not processed, and the store is left as \<open>s'\<close>, the result of the
  successful prefix.
\<close>

theorem batchUpdateRsvps_partial_failure:
  assumes "batchUpdateRsvps s pre = (Inr rs, s')"
  shows "(map_of (events s') (bu_eventId u) \<noteq> None \<and>
          bu_playerId u \<notin> set (map (\<lambda>entry. player_id (player entry)) (values (rsvpEntries s')))
          \<longrightarrow> batchUpdateRsvps s (pre @ (now, u) # post) =
                (Inl (ValidationError (''Player not found: '' @ bu_playerId u)), s')) \<and>
         (\<forall>err. fst (batchItem s' now u) = Inl err
          \<longrightarrow> batchUpdateRsvps s (pre @ (now, u) # post) = (Inl err, s'))"
proof (intro conjI impI allI)
  assume a: "map_of (events s') (bu_eventId u) \<noteq> None \<and>
    bu_playerId u \<notin> set (map (\<lambda>entry. player_id (player entry)) (values (rsvpEntries s')))"
  then have "getPlayerById s' (bu_playerId u) = None" by (simp add: getPlayerById_None)
  with a have "fst (batchItem s' now u) =
      Inl (ValidationError (''Player not found: '' @ bu_playerId u))"
    by (auto simp: batchItem_def)
  then show "batchUpdateRsvps s (pre @ (now, u) # post) =
      (Inl (ValidationError (''Player not found: '' @ bu_playerId u)), s')"
    by (rule batch_fails_at [OF assms])
next
  fix err
  assume "fst (batchItem s' now u) = Inl err"
  then show "batchUpdateRsvps s (pre @ (now, u) # post) = (Inl err, s')"
    by (rule batch_fails_at [OF assms])
qed

lemma batch_example_prefix:
  "batchUpdateRsvps full_store [(1700000000003, upd_a_no)] =
     (Inr [entry_a\<lparr>status := ''No'', updatedAt := 1700000000003\<rparr>],
      full_store\<lparr>rsvpEntries :=
        [(''1-1'', entry_a\<lparr>status := ''No'', updatedAt := 1700000000003\<rparr>), (''1-2'', entry_b)]\<rparr>)"
  using valid_examples
  by (simp add: batchUpdateRsvps_def batchItem_def rethrow_def full_store_def empty_store_def
      upd_a_no_def getPlayerById_def values_def entry_a_def entry_b_def updateRsvp_def
      validateRsvpStatus_def validStatuses_def rsvpKey_def player_a_def Let_def)

theorem batchUpdateRsvps_partial_failure_witness:
  "batchUpdateRsvps full_store [(1700000000003, upd_a_no)] =
     (Inr [entry_a\<lparr>status := ''No'', updatedAt := 1700000000003\<rparr>],
      full_store\<lparr>rsvpEntries :=
        [(''1-1'', entry_a\<lparr>status := ''No'', updatedAt := 1700000000003\<rparr>), (''1-2'', entry_b)]\<rparr>) \<and>
   batchUpdateRsvps full_store
     ([(1700000000003, upd_a_no)] @ (1700000000004, upd_unknown_player) #
      [(1700000000005, upd_b_maybe)]) =
     (Inl (ValidationError ''Player not found: 9''),
      full_store\<lparr>rsvpEntries :=
        [(''1-1'', entry_a\<lparr>status := ''No'', updatedAt := 1700000000003\<rparr>), (''1-2'', entry_b)]\<rparr>)"
proof -
  let ?s' = "full_store\<lparr>rsvpEntries :=
        [(''1-1'', entry_a\<lparr>status := ''No'', updatedAt := 1700000000003\<rparr>), (''1-2'', entry_b)]\<rparr>"
  have ev: "map_of (events ?s') (bu_eventId upd_unknown_player) \<noteq> None"
    by (simp add: full_store_def empty_store_def upd_unknown_player_def)
  have pl: "bu_playerId upd_unknown_player \<notin>
      set (map (\<lambda>entry. player_id (player entry)) (values (rsvpEntries ?s')))"
    by (simp add: upd_unknown_player_def values_def entry_a_def entry_b_def player_a_def
        player_b_def)
  have msg: "''Player not found: '' @ bu_playerId upd_unknown_player = ''Player not found: 9''"
    by (simp add: upd_unknown_player_def)
  show ?thesis
    using batchUpdateRsvps_partial_failure [OF batch_example_prefix,
        of upd_unknown_player 1700000000004 "[(1700000000005, upd_b_maybe)]"]
      ev pl batch_example_prefix
    unfolding msg by blast
qed

subsection \<open>Loops over a map that delete or replace the visited entry\<close>

lemma fold_delete_filter:
  "fold (\<lambda>(key, entry) m. if P entry then AList.delete key m else m) ys m =
   filter (\<lambda>kv. fst kv \<notin> fst ` {x \<in> set ys. P (snd x)}) m"
proof (induction ys arbitrary: m)
  case Nil
  then show ?case by simp
next
  case (Cons y ys)
  obtain k e where y: "y = (k, e)" by (cases y)
  show ?case
  proof (cases "P e")
    case True
    have "fold (\<lambda>(key, entry) m. if P entry then AList.delete key m else m) (y # ys) m =
          filter (\<lambda>kv. fst kv \<notin> fst ` {x \<in> set ys. P (snd x)}) (AList.delete k m)"
      using True y Cons.IH by simp
    also have "\<dots> = filter (\<lambda>kv. fst kv \<notin> fst ` {x \<in> set (y # ys). P (snd x)}) m"
    proof -
      have "{x \<in> set (y # ys). P (snd x)} = insert y {x \<in> set ys. P (snd x)}"
        using True y by auto
      then show ?thesis
        using y by (auto simp: AList.delete_eq intro!: filter_cong)
    qed
    finally show ?thesis .
  next
    case False
    have "{x \<in> set (y # ys). P (snd x)} = {x \<in> set ys. P (snd x)}"
      using False y by auto
    then show ?thesis using False y Cons.IH by simp
  qed
qed

lemma same_key_same_pair:
  assumes "distinct (map fst xs)" and "x \<in> set xs" and "y \<in> set xs" and "fst x = fst y"
  shows "x = y"
  using assms by (metis eq_key_imp_eq_value prod.collapse)

lemma fold_delete_distinct:
  assumes "distinct (map fst xs)"
  shows "fold (\<lambda>(key, entry) m. if P entry then AList.delete key m else m) xs xs =
         filter (\<lambda>kv. \<not> P (snd kv)) xs"
proof -
  have "filter (\<lambda>kv. fst kv \<notin> fst ` {x \<in> set xs. P (snd x)}) xs =
        filter (\<lambda>kv. \<not> P (snd kv)) xs"
  proof (rule filter_cong [OF refl])
    fix kv assume kv: "kv \<in> set xs"
    show "(fst kv \<notin> fst ` {x \<in> set xs. P (snd x)}) = (\<not> P (snd kv))"
    proof
      assume "fst kv \<notin> fst ` {x \<in> set xs. P (snd x)}"
      with kv show "\<not> P (snd kv)" by auto
    next
      assume n: "\<not> P (snd kv)"
      show "fst kv \<notin> fst ` {x \<in> set xs. P (snd x)}"
      proof
        assume "fst kv \<in> fst ` {x \<in> set xs. P (snd x)}"
        then obtain x where x: "x \<in> set xs" "P (snd x)" "fst kv = fst x" by auto
        from same_key_same_pair [OF assms kv x(1) x(3)] x(2) n show False by simp
      qed
    qed
  qed
  then show ?thesis by (simp add: fold_delete_filter)
qed

lemma fold_delete_none_left:
  "kv \<in> set (fold (\<lambda>(key, entry) m. if P entry then AList.delete key m else m) xs xs)
   \<Longrightarrow> kv \<in> set xs \<and> \<not> P (snd kv)"
  by (auto simp: fold_delete_filter)

lemma update_present:
  "k \<notin> fst ` set pre \<Longrightarrow> AList.update k v (pre @ (k, e) # ys) = pre @ (k, v) # ys"
  by (induction pre) auto

lemma fold_update_map_aux:
  "distinct (map fst (pre @ ys)) \<Longrightarrow>
   fold (\<lambda>(key, entry) m. if P entry then AList.update key (g entry) m else m) ys (pre @ ys) =
   pre @ map (\<lambda>(key, entry). (key, if P entry then g entry else entry)) ys"
proof (induction ys arbitrary: pre)
  case Nil
  then show ?case by simp
next
  case (Cons y ys)
  obtain k e where y: "y = (k, e)" by (cases y)
  let ?F = "\<lambda>(key, entry) m. if P entry then AList.update key (g entry) m else m"
  let ?G = "\<lambda>(key, entry). (key, if P entry then g entry else entry)"
  have k: "k \<notin> fst ` set pre" using Cons.prems y by auto
  have d: "distinct (map fst ((pre @ [?G y]) @ ys))" using Cons.prems y by auto
  have "?F y (pre @ y # ys) = (pre @ [?G y]) @ ys"
    using y update_present [OF k] by simp
  then have "fold ?F (y # ys) (pre @ y # ys) = fold ?F ys ((pre @ [?G y]) @ ys)" by simp
  also have "\<dots> = (pre @ [?G y]) @ map ?G ys" by (rule Cons.IH [OF d])
  finally show ?case by simp
qed

lemma fold_update_map:
  "distinct (map fst xs) \<Longrightarrow>
   fold (\<lambda>(key, entry) m. if P entry then AList.update key (g entry) m else m) xs xs =
   map (\<lambda>(key, entry). (key, if P entry then g entry else entry)) xs"
  using fold_update_map_aux [of "[]" xs P g] by simp

subsection \<open>Deleting an event\<close>

lemma searchRsvps_no_options:
  "searchRsvps s no_options = sort_key updatedAt (values (rsvpEntries s))"
  by (simp add: searchRsvps_def no_options_def truthy_def)

text \<open>
  Claim C8. \<open>deleteEvent\<close> of an unknown id fails with the event-not-found validation
  error and leaves the store as it was. For an id in the store it succeeds; afterwards
  the event is gone and every other event is as before, no RSVP entry for the event is
  left (with distinct map keys the entries are exactly the former entries of the other
  events, in order), \<open>getEventRsvps\<close> for the id fails with the event-not-found validation
  error, \<open>searchRsvps\<close> with empty options returns no entry of the event, and the waitlist
  and the reminders are unchanged.
\<close>

theorem deleteEvent_cascade:
  "(map_of (events s) eid = None \<longrightarrow>
      deleteEvent s eid = (Inl (ValidationError ''Event not found''), s)) \<and>
   (map_of (events s) eid \<noteq> None \<longrightarrow>
      fst (deleteEvent s eid) = Inr () \<and>
      getEvent (snd (deleteEvent s eid)) eid = None \<and>
      (\<forall>k. k \<noteq> eid \<longrightarrow> getEvent (snd (deleteEvent s eid)) k = getEvent s k) \<and>
      (\<forall>entry \<in> set (values (rsvpEntries (snd (deleteEvent s eid)))). eventId entry \<noteq> eid) \<and>
      (distinct (map fst (rsvpEntries s)) \<longrightarrow>
         rsvpEntries (snd (deleteEvent s eid)) =
           filter (\<lambda>kv. eventId (snd kv) \<noteq> eid) (rsvpEntries s)) \<and>
      getEventRsvps (snd (deleteEvent s eid)) eid = Inl (ValidationError ''Event not found'') \<and>
      (\<forall>entry \<in> set (searchRsvps (snd (deleteEvent s eid)) no_options). eventId entry \<noteq> eid) \<and>
      waitlist (snd (deleteEvent s eid)) = waitlist s \<and>
      reminders (snd (deleteEvent s eid)) = reminders s)"
proof (intro conjI impI)
  assume "map_of (events s) eid = None"
  then show "deleteEvent s eid = (Inl (ValidationError ''Event not found''), s)"
    by (simp add: deleteEvent_def)
next
  assume ex: "map_of (events s) eid \<noteq> None"
  let ?s' = "snd (deleteEvent s eid)"
  have s': "?s' = s\<lparr>rsvpEntries := deleteRsvpsOf eid (rsvpEntries s),
                    events := AList.delete eid (events s)\<rparr>"
    using ex by (auto simp: deleteEvent_def)
  show "fst (deleteEvent s eid) = Inr ()" using ex by (auto simp: deleteEvent_def)
  show gone: "getEvent ?s' eid = None"
    by (simp add: s' getEvent_def delete_conv')
  show "\<forall>k. k \<noteq> eid \<longrightarrow> getEvent ?s' k = getEvent s k"
    by (simp add: s' getEvent_def delete_conv')
  show none: "\<forall>entry \<in> set (values (rsvpEntries ?s')). eventId entry \<noteq> eid"
    using fold_delete_none_left [of _ "\<lambda>entry. eventId entry = eid" "rsvpEntries s"]
    by (auto simp: s' values_def deleteRsvpsOf_def)
  show "rsvpEntries ?s' = filter (\<lambda>kv. eventId (snd kv) \<noteq> eid) (rsvpEntries s)"
    if "distinct (map fst (rsvpEntries s))"
    using fold_delete_distinct [OF that, of "\<lambda>entry. eventId entry = eid"]
    by (simp add: s' deleteRsvpsOf_def)
  show "getEventRsvps ?s' eid = Inl (ValidationError ''Event not found'')"
    using gone by (simp add: getEventRsvps_def getEvent_def)
  show "\<forall>entry \<in> set (searchRsvps ?s' no_options). eventId entry \<noteq> eid"
    using none by (simp add: searchRsvps_no_options)
  show "waitlist ?s' = waitlist s" by (simp add: s')
  show "reminders ?s' = reminders s" by (simp add: s')
qed

lemma busy_store_facts:
  "map_of (events busy_store) ''1'' \<noteq> None"
  "map_of (events busy_store) ''7'' = None"
  "distinct (map fst (rsvpEntries busy_store))"
  by (simp_all add: busy_store_def)

theorem deleteEvent_cascade_witness:
  "map_of (events busy_store) ''1'' \<noteq> None \<and> map_of (events busy_store) ''7'' = None \<and>
   distinct (map fst (rsvpEntries busy_store)) \<and>
   deleteEvent busy_store ''7'' = (Inl (ValidationError ''Event not found''), busy_store) \<and>
   deleteEvent busy_store ''1'' =
     (Inr (), busy_store\<lparr>rsvpEntries := [(''2-1'', entry_a2)], events := [(''2'', second_event)]\<rparr>) \<and>
   getEvent (snd (deleteEvent busy_store ''1'')) ''1'' = None \<and>
   getEvent (snd (deleteEvent busy_store ''1'')) ''2'' = Some second_event \<and>
   rsvpEntries (snd (deleteEvent busy_store ''1'')) = [(''2-1'', entry_a2)] \<and>
   getEventRsvps (snd (deleteEvent busy_store ''1'')) ''1'' =
     Inl (ValidationError ''Event not found'') \<and>
   searchRsvps (snd (deleteEvent busy_store ''1'')) no_options = [entry_a2] \<and>
   waitlist (snd (deleteEvent busy_store ''1'')) = [(''1'', [waiting_c])] \<and>
   reminders (snd (deleteEvent busy_store ''1'')) = [(''1'', reminder_1)]"
proof -
  have ev: "filter (\<lambda>kv. eventId (snd kv) \<noteq> ''1'') (rsvpEntries busy_store) = [(''2-1'', entry_a2)]"
    by (simp add: busy_store_def entry_a_def entry_b_def entry_a2_def)
  have w: "waitlist busy_store = [(''1'', [waiting_c])]"
    "reminders busy_store = [(''1'', reminder_1)]"
    "getEvent busy_store ''2'' = Some second_event"
    by (simp_all add: busy_store_def getEvent_def)
  have full: "deleteEvent busy_store ''1'' =
     (Inr (), busy_store\<lparr>rsvpEntries := [(''2-1'', entry_a2)], events := [(''2'', second_event)]\<rparr>)"
    by (simp add: deleteEvent_def deleteRsvpsOf_def busy_store_def entry_a_def entry_b_def
        entry_a2_def)
  have sr: "searchRsvps (snd (deleteEvent busy_store ''1'')) no_options = [entry_a2]"
    by (simp add: full searchRsvps_no_options values_def)
  show ?thesis
    using deleteEvent_cascade [of busy_store "''1''"] deleteEvent_cascade [of busy_store "''7''"]
      busy_store_facts ev w full sr
    by simp
qed

subsection \<open>Updating a player\<close>

lemma rewritePlayer_map:
  "distinct (map fst xs) \<Longrightarrow>
   rewritePlayer pid updatedPlayer xs =
   map (\<lambda>(key, entry).
          (key, if player_id (player entry) = pid then entry\<lparr>player := updatedPlayer\<rparr> else entry)) xs"
  unfolding rewritePlayer_def
  by (rule fold_update_map [of xs "\<lambda>entry. player_id (player entry) = pid"
        "\<lambda>entry. entry\<lparr>player := updatedPlayer\<rparr>"])

text \<open>
  Claim C9. In a store whose RSVP map has distinct keys, a successful \<open>updatePlayer\<close> for
  player id P finds a player with that id, and the RSVP entries afterwards are the
  former ones, in the same order and under the same keys, where each entry whose player
  id is P has its player replaced by the merged player and keeps its event id, status,
  notes and timestamp, and every other entry is as before; events, waitlist and
  reminders are unchanged.
\<close>

theorem updatePlayer_frame:
  assumes "distinct (map fst (rsvpEntries s))"
      and "updatePlayer s pid update = (Inr (), s')"
  shows "(case getPlayerById s pid of
            None \<Rightarrow> False
          | Some p \<Rightarrow>
              rsvpEntries s' =
                map (\<lambda>(key, entry).
                       (key, if player_id (player entry) = pid
                             then \<lparr>eventId = eventId entry, player = mergePlayer p update,
                                   status = status entry, updatedAt = updatedAt entry,
                                   entry_notes = entry_notes entry\<rparr>
                             else entry))
                  (rsvpEntries s)) \<and>
         events s' = events s \<and> waitlist s' = waitlist s \<and> reminders s' = reminders s"
proof (cases "getPlayerById s pid")
  case None
  with assms(2) show ?thesis by (simp add: updatePlayer_def)
next
  case (Some p)
  have s': "s' = s\<lparr>rsvpEntries := rewritePlayer pid (mergePlayer p update) (rsvpEntries s)\<rparr>"
    using assms(2) Some by (auto simp: updatePlayer_def Let_def split: sum.splits)
  show ?thesis
    using Some by (auto simp: s' rewritePlayer_map [OF assms(1)])
qed

theorem updatePlayer_frame_witness:
  "distinct (map fst (rsvpEntries busy_store)) \<and>
   updatePlayer busy_store ''1'' rename_a =
     (Inr (), busy_store\<lparr>rsvpEntries :=
        [(''1-1'', entry_a\<lparr>player := player_a\<lparr>player_name := ''Renamed Player''\<rparr>\<rparr>),
         (''1-2'', entry_b),
         (''2-1'', entry_a2\<lparr>player := player_a\<lparr>player_name := ''Renamed Player''\<rparr>\<rparr>)]\<rparr>) \<and>
   getPlayerById busy_store ''1'' = Some player_a \<and>
   events (snd (updatePlayer busy_store ''1'' rename_a)) = events busy_store \<and>
   waitlist (snd (updatePlayer busy_store ''1'' rename_a)) = waitlist busy_store \<and>
   reminders (snd (updatePlayer busy_store ''1'' rename_a)) = reminders busy_store"
proof -
  have p: "getPlayerById busy_store ''1'' = Some player_a"
    by (simp add: getPlayerById_def busy_store_def values_def entry_a_def player_a_def)
  have v: "validatePlayer (mergePlayer player_a rename_a) = Inr ()"
    by (simp add: validatePlayer_def mergePlayer_def rename_a_def player_a_def trim_def
        isWhiteSpace_def isValidEmail_def emailChar_def)
  have run: "updatePlayer busy_store ''1'' rename_a =
     (Inr (), busy_store\<lparr>rsvpEntries :=
        [(''1-1'', entry_a\<lparr>player := player_a\<lparr>player_name := ''Renamed Player''\<rparr>\<rparr>),
         (''1-2'', entry_b),
         (''2-1'', entry_a2\<lparr>player := player_a\<lparr>player_name := ''Renamed Player''\<rparr>\<rparr>)]\<rparr>)"
    using v
    by (simp add: updatePlayer_def p Let_def rewritePlayer_def)
      (simp add: busy_store_def mergePlayer_def rename_a_def entry_a_def entry_b_def
        entry_a2_def player_a_def player_b_def)
  show ?thesis
    using updatePlayer_frame [OF busy_store_facts(3) run] busy_store_facts(3) p run
    by simp
qed

subsection \<open>Searching\<close>

lemma includes_str_empty [simp]: "includes_str str []"
  by (cases str) simp_all

lemma searchRsvps_filters:
  assumes "so_eventId options \<noteq> Some ''''" and "so_status options \<noteq> Some ''''"
  shows "searchRsvps s options =
         sort_key updatedAt (filter (passes_filters s options) (values (rsvpEntries s)))"
proof -
  obtain e n st d where o: "options = \<lparr>so_eventId = e, so_playerName = n, so_status = st,
      so_startDate = d\<rparr>"
    by (cases options) simp
  show ?thesis
    using assms unfolding o
    by (auto simp: searchRsvps_def passes_filters_def truthy_def Let_def toLowerCase_def
        split: option.splits
        intro!: arg_cong [where f = "sort_key updatedAt"] filter_cong)
qed

lemma searchRsvps_applied:
  "searchRsvps s options =
   sort_key updatedAt (filter (applied_filters s options) (values (rsvpEntries s)))"
proof -
  obtain e n st d where o: "options = \<lparr>so_eventId = e, so_playerName = n, so_status = st,
      so_startDate = d\<rparr>"
    by (cases options) simp
  show ?thesis
    unfolding o
    by (auto simp: searchRsvps_def applied_filters_def truthy_def Let_def toLowerCase_def
        split: option.splits
        intro!: arg_cong [where f = "sort_key updatedAt"] filter_cong)
qed

text \<open>
  Claim C6 as stated fails: an event id given as the empty string is falsy and the
  event-id filter is skipped. With such options every entry of the store is returned,
  although none has the empty event id.
\<close>

theorem searchRsvps_empty_event_id:
  "searchRsvps busy_store empty_id_options = [entry_a, entry_b, entry_a2] \<and>
   filter (passes_filters busy_store empty_id_options) (values (rsvpEntries busy_store)) = []"
  by (simp add: searchRsvps_def passes_filters_def truthy_def empty_id_options_def
      busy_store_def values_def entry_a_def entry_b_def entry_a2_def)

text \<open>
  Claim C6, amended. For every store and all search options, \<open>searchRsvps\<close> returns exactly
  the entries that pass every applied filter, in ascending order of \<open>updatedAt\<close> (entries
  with equal timestamps in map order): the event id and the status by exact match, each
  applied when it is provided and not the empty string; the player name by
  case-insensitive substring; the start date applied when an event id is also provided
  and the store has an event under that id as given, comparing that event's date. For
  options whose event id and status, where provided, are not the empty string, these are
  exactly the entries that pass every provided filter. For all options the result is
  sorted by \<open>updatedAt\<close>, and with no option provided it consists of every entry of the
  store.
\<close>

theorem searchRsvps_correct:
  "searchRsvps s options =
     sort_key updatedAt (filter (applied_filters s options) (values (rsvpEntries s))) \<and>
   mset (searchRsvps s options) =
     mset (filter (applied_filters s options) (values (rsvpEntries s))) \<and>
   (so_eventId options \<noteq> Some '''' \<and> so_status options \<noteq> Some '''' \<longrightarrow>
      searchRsvps s options =
        sort_key updatedAt (filter (passes_filters s options) (values (rsvpEntries s))) \<and>
      mset (searchRsvps s options) =
        mset (filter (passes_filters s options) (values (rsvpEntries s)))) \<and>
   sorted (map updatedAt (searchRsvps s options)) \<and>
   mset (searchRsvps s no_options) = mset (values (rsvpEntries s))"
proof (intro conjI impI)
  show ap: "searchRsvps s options =
      sort_key updatedAt (filter (applied_filters s options) (values (rsvpEntries s)))"
    by (rule searchRsvps_applied)
  show "mset (searchRsvps s options) =
      mset (filter (applied_filters s options) (values (rsvpEntries s)))"
    unfolding ap by simp
next
  assume a: "so_eventId options \<noteq> Some '''' \<and> so_status options \<noteq> Some ''''"
  then show eq: "searchRsvps s options =
      sort_key updatedAt (filter (passes_filters s options) (values (rsvpEntries s)))"
    by (simp add: searchRsvps_filters)
  show "mset (searchRsvps s options) =
      mset (filter (passes_filters s options) (values (rsvpEntries s)))"
    unfolding eq by simp
next
  show "sorted (map updatedAt (searchRsvps s options))"
    by (simp add: searchRsvps_def Let_def)
next
  show "mset (searchRsvps s no_options) = mset (values (rsvpEntries s))"
    by (simp add: searchRsvps_no_options)
qed

theorem searchRsvps_correct_witness:
  "so_eventId test_options \<noteq> Some '''' \<and> so_status test_options \<noteq> Some '''' \<and>
   filter (passes_filters busy_store test_options) (values (rsvpEntries busy_store)) =
     [entry_a, entry_b] \<and>
   filter (applied_filters busy_store test_options) (values (rsvpEntries busy_store)) =
     [entry_a, entry_b] \<and>
   searchRsvps busy_store test_options = [entry_a, entry_b] \<and>
   sorted (map updatedAt (searchRsvps busy_store test_options)) \<and>
   mset (searchRsvps busy_store no_options) = mset [entry_a, entry_b, entry_a2]"
proof -
  have o: "so_eventId test_options \<noteq> Some ''''" "so_status test_options \<noteq> Some ''''"
    by (simp_all add: test_options_def)
  have l: "toLowerCase ''PLAYER'' = ''player''" "toLowerCase ''Test Player'' = ''test player''"
    by code_simp+
  have f: "filter (passes_filters busy_store test_options) (values (rsvpEntries busy_store)) =
     [entry_a, entry_b]"
    by (simp add: passes_filters_def test_options_def busy_store_def values_def entry_a_def
        entry_b_def entry_a2_def player_a_def player_b_def l test_event_def)
  have g: "filter (applied_filters busy_store test_options) (values (rsvpEntries busy_store)) =
     [entry_a, entry_b]"
    by (simp add: applied_filters_def test_options_def busy_store_def values_def entry_a_def
        entry_b_def entry_a2_def player_a_def player_b_def l test_event_def)
  have srt: "sort_key updatedAt [entry_a, entry_b] = [entry_a, entry_b]"
    by (simp add: entry_a_def entry_b_def)
  have v: "values (rsvpEntries busy_store) = [entry_a, entry_b, entry_a2]"
    by (simp add: busy_store_def values_def)
  have t: "searchRsvps busy_store test_options =
        sort_key updatedAt
          (filter (passes_filters busy_store test_options) (values (rsvpEntries busy_store))) \<and>
      sorted (map updatedAt (searchRsvps busy_store test_options)) \<and>
      mset (searchRsvps busy_store no_options) = mset (values (rsvpEntries busy_store))"
    using searchRsvps_correct [of busy_store test_options] o by blast
  from t [unfolded v f [unfolded v] srt]
  have a: "searchRsvps busy_store test_options = [entry_a, entry_b]"
    and b: "sorted (map updatedAt (searchRsvps busy_store test_options))"
    and c: "mset (searchRsvps busy_store no_options) = mset [entry_a, entry_b, entry_a2]"
    by blast+
  show ?thesis by (intro conjI o f g a b c)
qed

subsection \<open>Capacity invariant\<close>

lemma in_update_cases: "x \<in> set (AList.update k v al) \<Longrightarrow> x = (k, v) \<or> x \<in> set al"
  by (induction al) (auto split: if_splits)

lemma count_update_le_Suc:
  "length (filter P (map snd (AList.update k v al))) \<le> Suc (length (filter P (map snd al)))"
  by (induction al) auto

lemma count_update_le_same:
  "\<not> P v \<Longrightarrow>
   length (filter P (map snd (AList.update k v al))) \<le> length (filter P (map snd al))"
  by (induction al) auto

lemma count_filter_le:
  "length (filter P (map snd (filter Q al))) \<le> length (filter P (map snd al))"
  by (induction al) auto

lemma count_mono:
  "(\<And>x. P x \<Longrightarrow> Q x) \<Longrightarrow> length (filter P xs) \<le> length (filter Q xs)"
  by (induction xs) auto

lemma store_inv_empty: "store_inv empty_store"
  by (simp add: store_inv_def empty_store_def capacity_respected_def values_def)

lemma store_inv_lookup:
  assumes "store_inv s" and "event \<in> set (values (events s))"
  shows "map_of (events s) (event_id event) = Some event"
proof -
  from assms(2) obtain k where k: "(k, event) \<in> set (events s)"
    by (auto simp: values_def)
  with assms(1) have "event_id event = k"
    by (auto simp: store_inv_def list_all_iff)
  with k assms(1) show ?thesis by (simp add: store_inv_def)
qed

lemma store_inv_found:
  assumes "store_inv s" and "map_of (events s) eid = Some event"
  shows "event_id event = eid"
  using assms map_of_SomeD [OF assms(2)]
  by (auto simp: store_inv_def list_all_iff)

text \<open>Any change that only removes RSVP entries and events keeps the invariant.\<close>

lemma store_inv_shrink:
  assumes inv: "store_inv s"
      and ev: "events s' = filter Q (events s)"
      and en: "rsvpEntries s' = filter R (rsvpEntries s)"
  shows "store_inv s'"
proof -
  have c: "yesCountFor s' eid \<le> yesCountFor s eid" for eid
    unfolding yesCountFor_def values_def en by (rule count_filter_le)
  have "capacity_respected s'"
    unfolding capacity_respected_def
  proof
    fix event assume "event \<in> set (values (events s'))"
    then have "event \<in> set (values (events s))" by (auto simp: values_def ev)
    with inv have "int (yesCountFor s (event_id event)) \<le> maxPlayers event"
      by (simp add: store_inv_def capacity_respected_def)
    with c [of "event_id event"] show "int (yesCountFor s' (event_id event)) \<le> maxPlayers event"
      by linarith
  qed
  with inv show ?thesis
    by (auto simp: store_inv_def ev en distinct_map_filter list_all_iff)
qed

lemma store_inv_same:
  assumes "store_inv s" and "events s' = events s" and "rsvpEntries s' = rsvpEntries s"
  shows "store_inv s'"
  using assms by (simp add: store_inv_def capacity_respected_def yesCountFor_def)

text \<open>Storing an event whose capacity is not below the current "Yes" count.\<close>

lemma store_inv_set_event:
  assumes inv: "store_inv s"
      and cap: "int (yesCountFor s (event_id event)) \<le> maxPlayers event"
  shows "store_inv (s\<lparr>events := AList.update (event_id event) event (events s)\<rparr>)"
proof -
  let ?s' = "s\<lparr>events := AList.update (event_id event) event (events s)\<rparr>"
  have mem: "kv = (event_id event, event) \<or> kv \<in> set (events s)" if "kv \<in> set (events ?s')" for kv
    using that in_update_cases [of kv "event_id event" event "events s"] by simp
  have y: "yesCountFor ?s' eid = yesCountFor s eid" for eid
    by (simp add: yesCountFor_def)
  have "capacity_respected ?s'"
    unfolding capacity_respected_def
  proof
    fix e assume "e \<in> set (values (events ?s'))"
    then obtain k where "(k, e) \<in> set (events ?s')" by (auto simp: values_def)
    from mem [OF this] have "e = event \<or> e \<in> set (values (events s))"
      by (auto simp: values_def intro: rev_image_eqI)
    then show "int (yesCountFor ?s' (event_id e)) \<le> maxPlayers e"
      using cap inv by (auto simp: y store_inv_def capacity_respected_def)
  qed
  moreover have "event_id (snd kv) = fst kv" if "kv \<in> set (events ?s')" for kv
    using mem [OF that] inv by (auto simp: store_inv_def list_all_iff)
  then have "list_all (\<lambda>kv. event_id (snd kv) = fst kv) (events ?s')"
    unfolding list_all_iff by blast
  ultimately show ?thesis
    using inv by (simp add: store_inv_def distinct_update)
qed

lemma createEvent_inv:
  assumes inv: "store_inv s" and keep: "keeps_capacity s (CreateEvent now event)"
  shows "store_inv (snd (createEvent s now event))"
proof (cases "fst (createEvent s now event)")
  case (Inl err)
  then have "snd (createEvent s now event) = s"
    by (auto simp: createEvent_def split: sum.splits if_splits)
  with inv show ?thesis by simp
next
  case (Inr stored)
  then have st: "stored = event"
    and s': "snd (createEvent s now event) =
             s\<lparr>events := AList.update (event_id event) event (events s)\<rparr>"
    by (auto simp: createEvent_def split: sum.splits if_splits)
  from keep Inr st have "int (yesCountFor s (event_id event)) \<le> maxPlayers event" by simp
  from store_inv_set_event [OF inv this] s' show ?thesis by simp
qed

lemma updateEvent_inv:
  assumes inv: "store_inv s" and keep: "keeps_capacity s (UpdateEvent now eid update)"
  shows "store_inv (snd (updateEvent s now eid update))"
proof (cases "fst (updateEvent s now eid update)")
  case (Inl err)
  then have "snd (updateEvent s now eid update) = s"
    by (auto simp: updateEvent_def Let_def split: option.splits sum.splits)
  with inv show ?thesis by simp
next
  case (Inr stored)
  then obtain event where ev: "map_of (events s) eid = Some event"
    by (auto simp: updateEvent_def split: option.splits)
  from Inr ev have st: "stored = mergeEvent event update"
    and s': "snd (updateEvent s now eid update) =
             s\<lparr>events := AList.update eid (mergeEvent event update) (events s)\<rparr>"
    by (auto simp: updateEvent_def Let_def split: sum.splits)
  have id: "event_id (mergeEvent event update) = eid"
    using store_inv_found [OF inv ev] by (simp add: mergeEvent_def)
  from keep Inr st have "int (yesCountFor s (event_id (mergeEvent event update)))
      \<le> maxPlayers (mergeEvent event update)" by simp
  from store_inv_set_event [OF inv this] id s' show ?thesis by simp
qed

lemma updateRsvp_inv:
  assumes inv: "store_inv s"
  shows "store_inv (snd (updateRsvp s now eid p st nts))"
proof (cases "fst (updateRsvp s now eid p st nts)")
  case (Inl err)
  then have "snd (updateRsvp s now eid p st nts) = s"
    using updateRsvp_error [of s now eid p st nts err] by (metis prod.collapse)
  with inv show ?thesis by simp
next
  case (Inr entry)
  let ?entry = "\<lparr>eventId = eid, player = p, status = st, updatedAt = now, entry_notes = nts\<rparr>"
  let ?xs' = "AList.update (rsvpKey eid (player_id p)) ?entry (rsvpEntries s)"
  let ?s' = "s\<lparr>rsvpEntries := ?xs'\<rparr>"
  from Inr obtain event where ev: "map_of (events s) eid = Some event"
    by (auto simp: updateRsvp_def split: option.splits)
  from Inr ev have room: "st = ''Yes'' \<Longrightarrow> int (length (getConfirmedAttendees s)) < maxPlayers event"
    and s': "snd (updateRsvp s now eid p st nts) = ?s'"
    by (auto simp: updateRsvp_def Let_def split: sum.splits if_splits)
  have "capacity_respected ?s'"
    unfolding capacity_respected_def
  proof
    fix e assume e: "e \<in> set (values (events ?s'))"
    then have e_in: "e \<in> set (values (events s))" by simp
    with inv have old: "int (yesCountFor s (event_id e)) \<le> maxPlayers e"
      by (simp add: store_inv_def capacity_respected_def)
    let ?P = "\<lambda>entry. eventId entry = event_id e \<and> status entry = ''Yes''"
    have step: "yesCountFor ?s' (event_id e) \<le> Suc (yesCountFor s (event_id e))"
      unfolding yesCountFor_def values_def
      using count_update_le_Suc [of ?P "rsvpKey eid (player_id p)" ?entry "rsvpEntries s"] by simp
    show "int (yesCountFor ?s' (event_id e)) \<le> maxPlayers e"
    proof (cases "?P ?entry")
      case False
      have "yesCountFor ?s' (event_id e) \<le> yesCountFor s (event_id e)"
        unfolding yesCountFor_def values_def
        using count_update_le_same [of ?P ?entry "rsvpKey eid (player_id p)" "rsvpEntries s", OF False]
        by simp
      with old show ?thesis by linarith
    next
      case True
      then have eid: "event_id e = eid" and yes: "st = ''Yes''" by simp_all
      from store_inv_lookup [OF inv e_in] eid ev have "e = event" by simp
      have "yesCountFor s (event_id e) \<le> length (getConfirmedAttendees s)"
        unfolding yesCountFor_def length_getConfirmedAttendees values_def
        by (rule count_mono) simp
      with room [OF yes] step have "int (yesCountFor ?s' (event_id e)) \<le> maxPlayers event"
        by linarith
      with \<open>e = event\<close> show ?thesis by simp
    qed
  qed
  with inv have "store_inv ?s'" by (simp add: store_inv_def distinct_update)
  with s' show ?thesis by simp
qed
lemma batchItem_inv: "store_inv s \<Longrightarrow> store_inv (snd (batchItem s now u))"
  by (auto simp: batchItem_def updateRsvp_inv split: option.splits)

lemma batchLoop_inv: "store_inv s \<Longrightarrow> store_inv (snd (batchLoop s us acc))"
proof (induction us arbitrary: s acc)
  case Nil
  then show ?case by simp
next
  case (Cons x us)
  obtain now u where x: "x = (now, u)" by (cases x)
  obtain r s1 where item: "batchItem s now u = (r, s1)" by (cases "batchItem s now u")
  from batchItem_inv [OF Cons.prems, of now u] item have s1: "store_inv s1" by simp
  show ?case
    using x item s1 Cons.IH [OF s1] by (cases r) simp_all
qed

lemma batchUpdateRsvps_inv: "store_inv s \<Longrightarrow> store_inv (snd (batchUpdateRsvps s us))"
  using batchLoop_inv [of s us "[]"]
  by (cases "batchLoop s us []") (simp add: batchUpdateRsvps_def)

lemma deleteEvent_inv:
  assumes "store_inv s"
  shows "store_inv (snd (deleteEvent s eid))"
proof (cases "map_of (events s) eid = None")
  case True
  with assms show ?thesis by (simp add: deleteEvent_def)
next
  case False
  show ?thesis
    by (rule store_inv_shrink [OF assms,
          where Q = "\<lambda>(k, v). eid \<noteq> k"
            and R = "\<lambda>kv. fst kv \<notin> fst ` {x \<in> set (rsvpEntries s). eventId (snd x) = eid}"])
      (use False in \<open>auto simp: deleteEvent_def deleteRsvpsOf_def fold_delete_filter AList.delete_eq\<close>)
qed

lemma cancelRsvp_inv:
  assumes "store_inv s"
  shows "store_inv (snd (cancelRsvp s eid pid))"
proof (cases "map_of (rsvpEntries s) (rsvpKey eid pid) = None")
  case True
  with assms show ?thesis by (simp add: cancelRsvp_def)
next
  case False
  show ?thesis
    by (rule store_inv_shrink [OF assms,
          where Q = "\<lambda>kv. True" and R = "\<lambda>(k, v). rsvpKey eid pid \<noteq> k"])
      (use False in \<open>auto simp: cancelRsvp_def Let_def AList.delete_eq\<close>)
qed

lemma removePlayer_inv:
  assumes "store_inv s"
  shows "store_inv (snd (removePlayer s pid))"
proof (cases "getPlayerById s pid = None")
  case True
  with assms show ?thesis by (simp add: removePlayer_def)
next
  case False
  show ?thesis
    by (rule store_inv_shrink [OF assms,
          where Q = "\<lambda>kv. True"
            and R = "\<lambda>kv. fst kv \<notin> fst ` {x \<in> set (rsvpEntries s). player_id (player (snd x)) = pid}"])
      (use False in \<open>auto simp: removePlayer_def deleteRsvpsOfPlayer_def fold_delete_filter\<close>)
qed

lemma count_map_same:
  assumes "\<And>kv. P (snd (G kv)) = P (snd kv)"
  shows "length (filter P (map snd (map G xs))) = length (filter P (map snd xs))"
  using assms by (induction xs) auto

lemma updatePlayer_inv:
  assumes inv: "store_inv s"
  shows "store_inv (snd (updatePlayer s pid update))"
proof (cases "fst (updatePlayer s pid update)")
  case (Inl err)
  then have "snd (updatePlayer s pid update) = s"
    by (auto simp: updatePlayer_def Let_def split: option.splits sum.splits)
  with inv show ?thesis by simp
next
  case (Inr u)
  then obtain p where p: "getPlayerById s pid = Some p"
    by (auto simp: updatePlayer_def split: option.splits)
  let ?G = "\<lambda>(key, entry). (key, if player_id (player entry) = pid
                                    then entry\<lparr>player := mergePlayer p update\<rparr> else entry)"
  have d: "distinct (map fst (rsvpEntries s))" using inv by (simp add: store_inv_def)
  have s': "snd (updatePlayer s pid update) = s\<lparr>rsvpEntries := map ?G (rsvpEntries s)\<rparr>"
    using Inr p by (auto simp: updatePlayer_def Let_def rewritePlayer_map [OF d] split: sum.splits)
  have keys: "map fst (map ?G (rsvpEntries s)) = map fst (rsvpEntries s)"
    by (induction "rsvpEntries s") auto
  have y: "yesCountFor (s\<lparr>rsvpEntries := map ?G (rsvpEntries s)\<rparr>) eid = yesCountFor s eid" for eid
    unfolding yesCountFor_def values_def
    using count_map_same [of "\<lambda>entry. eventId entry = eid \<and> status entry = ''Yes''" ?G "rsvpEntries s"]
    by (auto split: prod.splits)
  show ?thesis
    using inv unfolding s' store_inv_def capacity_respected_def
    by (simp add: y keys del: map_map)
qed

lemma waitlist_reminder_ops_inv:
  assumes "store_inv s"
  shows "store_inv (snd (addToWaitlist s now eid p))"
    and "store_inv (snd (notifyWaitlist s clock eid))"
    and "store_inv (snd (setupReminders s now now' eid interval))"
    and "store_inv (snd (sendReminders s now))"
  by (rule store_inv_same [OF assms];
      auto simp: addToWaitlist_def notifyWaitlist_def setupReminders_def sendReminders_def Let_def
        split: option.splits prod.splits)+
lemma cleanupRsvps_fst_fold:
  "fst (fold (\<lambda>(key, entry) (m, rsvpsCleaned).
               if P entry then (AList.delete key m, rsvpsCleaned + 1) else (m, rsvpsCleaned))
          ys (m, n)) =
   fold (\<lambda>(key, entry) m. if P entry then AList.delete key m else m) ys m"
  by (induction ys arbitrary: m n) (auto split: prod.splits)

lemma cleanupRsvps_fst:
  "fst (cleanupRsvps eid (xs, n)) =
   filter (\<lambda>kv. fst kv \<notin> fst ` {x \<in> set xs. eventId (snd x) = eid}) xs"
  unfolding cleanupRsvps_def
  using cleanupRsvps_fst_fold [of "\<lambda>entry. eventId entry = eid" xs xs n]
  by (simp add: fold_delete_filter)

lemma cleanupStep_inv:
  assumes inv: "cleanup_inv evs0 xs0 st" and kv: "kv \<in> set evs0"
  shows "cleanup_inv evs0 xs0 (cleanupStep cutoffDate options kv st)"
proof -
  obtain eid event where e: "kv = (eid, event)" by (cases kv)
  obtain evs xs ec rc where st: "st = (evs, xs, ec, rc)" by (cases st)
  from inv st obtain Q where Q: "xs = filter Q xs0"
    and d: "distinct (map fst evs)"
    and o: "\<forall>kv \<in> set evs. \<exists>e0. (fst kv, e0) \<in> set evs0 \<and>
              maxPlayers (snd kv) = maxPlayers e0 \<and> event_id (snd kv) = event_id e0"
    by (auto simp: cleanup_inv_def)
  let ?evs' = "if archive options = Some True
               then AList.update eid (event\<lparr>archived := Some True\<rparr>) evs
               else AList.delete eid evs"
  let ?xs' = "if includeRSVPs options = Some True then fst (cleanupRsvps eid (xs, rc)) else xs"
  have d': "distinct (map fst ?evs')" using d by (simp add: distinct_update distinct_delete)
  have o': "\<exists>e0. (fst x, e0) \<in> set evs0 \<and> maxPlayers (snd x) = maxPlayers e0 \<and>
              event_id (snd x) = event_id e0" if "x \<in> set ?evs'" for x
  proof (cases "archive options = Some True")
    case True
    with that in_update_cases [of x eid "event\<lparr>archived := Some True\<rparr>" evs]
    have "x = (eid, event\<lparr>archived := Some True\<rparr>) \<or> x \<in> set evs" by simp
    then show ?thesis using o kv e by auto
  next
    case False
    with that have "x \<in> set evs" by (auto simp: AList.delete_eq)
    with o show ?thesis by blast
  qed
  have Q': "\<exists>Q'. ?xs' = filter Q' xs0"
  proof (cases "includeRSVPs options = Some True")
    case True
    let ?R = "\<lambda>kv. fst kv \<notin> fst ` {x \<in> set xs. eventId (snd x) = eid}"
    have "?xs' = filter (\<lambda>x. Q x \<and> ?R x) xs0"
      using True by (simp add: cleanupRsvps_fst) (simp add: Q)
    then show ?thesis by blast
  next
    case False
    then have "?xs' = filter Q xs0" by (simp add: Q)
    then show ?thesis by blast
  qed
  have shape: "\<exists>ec' rc'. cleanupStep cutoffDate options kv st =
      (if date event < cutoffDate then (?evs', ?xs', ec', rc') else (evs, xs, ec, rc))"
    unfolding cleanupStep_def e st
    by (cases "cleanupRsvps eid (xs, rc)") (auto simp: Let_def)
  then obtain ec' rc' where "cleanupStep cutoffDate options kv st =
      (if date event < cutoffDate then (?evs', ?xs', ec', rc') else (evs, xs, ec, rc))"
    by blast
  then show ?thesis
    using d' o' Q' inv st unfolding cleanup_inv_def
    by (cases "date event < cutoffDate") (simp_all del: set_filter)
qed

lemma cleanup_fold_inv:
  "set ys \<subseteq> set evs0 \<Longrightarrow> cleanup_inv evs0 xs0 st \<Longrightarrow>
   cleanup_inv evs0 xs0 (fold (cleanupStep cutoffDate options) ys st)"
proof (induction ys arbitrary: st)
  case Nil
  then show ?case by simp
next
  case (Cons y ys)
  have "cleanup_inv evs0 xs0 (cleanupStep cutoffDate options y st)"
    by (rule cleanupStep_inv) (use Cons.prems in auto)
  then show ?case using Cons.IH Cons.prems by simp
qed

lemma cleanupData_inv:
  assumes inv: "store_inv s"
  shows "store_inv (snd (cleanupData s now options))"
proof -
  define cutoffDate where "cutoffDate =
    now - (case maxAge options of None \<Rightarrow> 30 | Some m \<Rightarrow> if m = 0 then 30 else m) * 24 * 60 * 60 * 1000"
  obtain evs xs ec rc where r:
    "fold (cleanupStep cutoffDate options) (events s) (events s, rsvpEntries s, 0, 0) = (evs, xs, ec, rc)"
    by (cases "fold (cleanupStep cutoffDate options) (events s) (events s, rsvpEntries s, 0, 0)") auto
  have s': "snd (cleanupData s now options) = s\<lparr>events := evs, rsvpEntries := xs\<rparr>"
    using r by (simp add: cleanupData_def Let_def cutoffDate_def)
  have start: "cleanup_inv (events s) (rsvpEntries s) (events s, rsvpEntries s, 0, 0)"
    unfolding cleanup_inv_def using inv
    by (auto simp: store_inv_def intro: exI [of _ "\<lambda>x. True"])
  from cleanup_fold_inv [OF subset_refl start, of cutoffDate options] r
  obtain Q where Q: "xs = filter Q (rsvpEntries s)"
    and d: "distinct (map fst evs)"
    and o: "\<forall>kv \<in> set evs. \<exists>e0. (fst kv, e0) \<in> set (events s) \<and>
              maxPlayers (snd kv) = maxPlayers e0 \<and> event_id (snd kv) = event_id e0"
    by (auto simp: cleanup_inv_def)
  let ?s' = "s\<lparr>events := evs, rsvpEntries := xs\<rparr>"
  have c: "yesCountFor ?s' eid \<le> yesCountFor s eid" for eid
    unfolding yesCountFor_def values_def using Q count_filter_le by simp
  have ids: "list_all (\<lambda>kv. event_id (snd kv) = fst kv) evs"
    unfolding list_all_iff
  proof
    fix kv assume "kv \<in> set evs"
    with o obtain e0 where e0: "(fst kv, e0) \<in> set (events s)" "event_id (snd kv) = event_id e0"
      by blast
    with inv show "event_id (snd kv) = fst kv"
      by (auto simp: store_inv_def list_all_iff)
  qed
  have "capacity_respected ?s'"
    unfolding capacity_respected_def
  proof
    fix e assume "e \<in> set (values (events ?s'))"
    then obtain k where "(k, e) \<in> set evs" by (auto simp: values_def)
    with o obtain e0 where e0: "(k, e0) \<in> set (events s)" "maxPlayers e = maxPlayers e0"
      "event_id e = event_id e0" by fastforce
    then have "e0 \<in> set (values (events s))" by (auto simp: values_def intro: rev_image_eqI)
    with inv have "int (yesCountFor s (event_id e0)) \<le> maxPlayers e0"
      by (simp add: store_inv_def capacity_respected_def)
    with c [of "event_id e"] e0 show "int (yesCountFor ?s' (event_id e)) \<le> maxPlayers e"
      by simp
  qed
  with d ids Q inv have "store_inv ?s'"
    by (simp add: store_inv_def distinct_map_filter)
  with s' show ?thesis by simp
qed

lemma exec_inv:
  assumes "store_inv s" and "keeps_capacity s c"
  shows "store_inv (exec s c)"
  using assms
  by (cases c)
    (simp_all add: createEvent_inv updateRsvp_inv batchUpdateRsvps_inv updateEvent_inv
      deleteEvent_inv cancelRsvp_inv updatePlayer_inv removePlayer_inv
      waitlist_reminder_ops_inv cleanupData_inv)

lemma run_inv: "store_inv s \<Longrightarrow> admissible s cs \<Longrightarrow> store_inv (run s cs)"
  by (induction cs arbitrary: s) (auto simp: run_def exec_inv)
lemma scenario_run: "run empty_store scenario_calls = full_store"
  using full_store_reached by (simp add: run_def scenario_calls_def)

lemma run_append: "run s (cs @ ds) = run (run s cs) ds"
  by (simp add: run_def)

lemma admissible_append:
  "admissible s (cs @ ds) = (admissible s cs \<and> admissible (run s cs) ds)"
  by (induction cs arbitrary: s) (simp_all add: run_def)

lemma zero_capacity_rejected:
  "updateEvent full_store 1700000000003 ''1'' zero_capacity =
     (Inl (ValidationError ''maxPlayers must be a positive integer''), full_store)"
  by (simp add: updateEvent_def full_store_def empty_store_def mergeEvent_def zero_capacity_def
      validateEvent_def test_event_def trim_def isWhiteSpace_def Let_def)

text \<open>
  Claim C3 as stated fails: \<open>updateEvent\<close> accepts any positive capacity. After two players
  have said "Yes" to an event of capacity 2, lowering its capacity to 1 succeeds and
  leaves an event with two "Yes" entries and \<open>maxPlayers = 1\<close>.
\<close>

theorem capacity_broken_by_updateEvent:
  "run empty_store (scenario_calls @ [UpdateEvent 1700000000003 ''1'' lower_capacity]) =
     full_store\<lparr>events := [(''1'', test_event\<lparr>maxPlayers := 1\<rparr>)]\<rparr> \<and>
   yesCountFor (full_store\<lparr>events := [(''1'', test_event\<lparr>maxPlayers := 1\<rparr>)]\<rparr>) ''1'' = 2 \<and>
   \<not> capacity_respected (full_store\<lparr>events := [(''1'', test_event\<lparr>maxPlayers := 1\<rparr>)]\<rparr>)"
proof -
  have "exec full_store (UpdateEvent 1700000000003 ''1'' lower_capacity) =
      full_store\<lparr>events := [(''1'', test_event\<lparr>maxPlayers := 1\<rparr>)]\<rparr>"
    by (simp add: updateEvent_def full_store_def empty_store_def mergeEvent_def lower_capacity_def
        validateEvent_def test_event_def trim_def isWhiteSpace_def Let_def)
  then have r: "run empty_store (scenario_calls @ [UpdateEvent 1700000000003 ''1'' lower_capacity]) =
      full_store\<lparr>events := [(''1'', test_event\<lparr>maxPlayers := 1\<rparr>)]\<rparr>"
    by (simp add: run_append scenario_run) (simp add: run_def)
  have y: "yesCountFor (full_store\<lparr>events := [(''1'', test_event\<lparr>maxPlayers := 1\<rparr>)]\<rparr>) ''1'' = 2"
    by (simp add: yesCountFor_def full_store_def empty_store_def values_def entry_a_def entry_b_def)
  have "\<not> capacity_respected (full_store\<lparr>events := [(''1'', test_event\<lparr>maxPlayers := 1\<rparr>)]\<rparr>)"
    unfolding capacity_respected_def using y by (simp add: values_def test_event_def)
  with r y show ?thesis by simp
qed

text \<open>
  Claim C3, amended. In every state reached from the empty store by a sequence of public
  operations in which no \<open>createEvent\<close> or \<open>updateEvent\<close> call stores a capacity below the
  number of "Yes" entries held at that moment for that event id (a call that fails
  stores nothing and is not restricted), every event of the store has at most
  \<open>maxPlayers\<close> entries with its id and status "Yes". And \<open>updateRsvp\<close> with a status other
  than "Yes" is never rejected for capacity.
\<close>

theorem capacity_invariant:
  "(admissible empty_store cs \<longrightarrow> capacity_respected (run empty_store cs)) \<and>
   (st \<noteq> ''Yes'' \<longrightarrow>
      fst (updateRsvp s now eid p st nts) \<noteq> Inl (ValidationError ''Event is at maximum capacity''))"
proof (intro conjI impI)
  assume "admissible empty_store cs"
  from run_inv [OF store_inv_empty this] show "capacity_respected (run empty_store cs)"
    by (simp add: store_inv_def)
next
  assume "st \<noteq> ''Yes''"
  then show "fst (updateRsvp s now eid p st nts) \<noteq>
      Inl (ValidationError ''Event is at maximum capacity'')"
    by (auto simp: updateRsvp_def validatePlayer_def validateRsvpStatus_def Let_def
        split: option.splits sum.splits if_splits)
qed

theorem capacity_invariant_witness:
  "admissible empty_store
     (scenario_calls @ [UpdateEvent 1700000000003 ''1'' zero_capacity,
                        UpdateRsvp 1700000000003 ''1'' player_c ''Yes'' None,
                        UpdateRsvp 1700000000004 ''1'' player_a ''No'' None]) \<and>
   capacity_respected
     (run empty_store
        (scenario_calls @ [UpdateEvent 1700000000003 ''1'' zero_capacity,
                           UpdateRsvp 1700000000003 ''1'' player_c ''Yes'' None,
                           UpdateRsvp 1700000000004 ''1'' player_a ''No'' None])) \<and>
   ''No'' \<noteq> ''Yes'' \<and>
   fst (updateRsvp full_store 1700000000004 ''1'' player_a ''No'' None) \<noteq>
     Inl (ValidationError ''Event is at maximum capacity'')"
proof -
  have ev: "maxPlayers test_event = 2" "event_id test_event = ''1''"
    by (simp_all add: test_event_def)
  have a1: "admissible empty_store scenario_calls"
    using valid_examples(1)
    by (simp add: scenario_calls_def createEvent_def ev yesCountFor_def empty_store_def
        values_def)
  have a2: "admissible full_store
     [UpdateEvent 1700000000003 ''1'' zero_capacity,
      UpdateRsvp 1700000000003 ''1'' player_c ''Yes'' None,
      UpdateRsvp 1700000000004 ''1'' player_a ''No'' None]"
    by (simp add: zero_capacity_rejected)
  have a: "admissible empty_store
     (scenario_calls @ [UpdateEvent 1700000000003 ''1'' zero_capacity,
                        UpdateRsvp 1700000000003 ''1'' player_c ''Yes'' None,
                        UpdateRsvp 1700000000004 ''1'' player_a ''No'' None])"
    using a1 a2 by (simp add: admissible_append scenario_run)
  have n: "''No'' \<noteq> ''Yes''" by simp
  show ?thesis
    using capacity_invariant [of "scenario_calls @ [UpdateEvent 1700000000003 ''1'' zero_capacity,
              UpdateRsvp 1700000000003 ''1'' player_c ''Yes'' None,
              UpdateRsvp 1700000000004 ''1'' player_a ''No'' None]"
            "''No''" full_store 1700000000004 "''1''" player_a None] a n
    by blast
qed

subsection \<open>Saving and loading\<close>

lemma past_event_date_iso: "toISOString 1699913600000 = ''2023-11-13T22:13:20.000Z''"
  by code_simp

text \<open>
  Claim C1, evaluated on the code. A snapshot with one event is saved and loaded. In
  memory the event's \<open>date\<close> is a \<open>Date\<close> with time value 1699913600000; after \<open>save\<close> and \<open>load\<close>
  the event comes back with every other field as it was and with \<open>date\<close> the string
  \<open>2023-11-13T22:13:20.000Z\<close>: \<open>JSON.stringify\<close> writes a \<open>Date\<close> as its ISO string and \<open>load\<close>
  parses without reviving it.
\<close>

theorem save_load_date_comes_back_as_string:
  "storage_data_of past_store =
     \<lparr>sd_rsvpEntries = [],
      sd_events =
        [(String ''1'',
          Object [(''id'', String ''1''), (''name'', String ''Test Event''),
                  (''description'', String ''Test Description''),
                  (''date'', DateObj 1699913600000),
                  (''location'', String ''Test Location''), (''maxPlayers'', Number 2)])],
      sd_waitlist = [], sd_reminders = []\<rparr> \<and>
   load (save (storage_data_of past_store)) =
     Inr \<lparr>sd_rsvpEntries = [],
          sd_events =
            [(String ''1'',
              Object [(''id'', String ''1''), (''name'', String ''Test Event''),
                      (''description'', String ''Test Description''),
                      (''date'', String ''2023-11-13T22:13:20.000Z''),
                      (''location'', String ''Test Location''), (''maxPlayers'', Number 2)])],
          sd_waitlist = [], sd_reminders = []\<rparr> \<and>
   load (save (storage_data_of past_store)) \<noteq> Inr (storage_data_of past_store)"
proof -
  have d: "storage_data_of past_store =
     \<lparr>sd_rsvpEntries = [],
      sd_events =
        [(String ''1'',
          Object [(''id'', String ''1''), (''name'', String ''Test Event''),
                  (''description'', String ''Test Description''),
                  (''date'', DateObj 1699913600000),
                  (''location'', String ''Test Location''), (''maxPlayers'', Number 2)])],
      sd_waitlist = [], sd_reminders = []\<rparr>"
    by (simp add: storage_data_of_def past_store_def empty_store_def js_of_event_def
        past_event_def)
  have l: "load (save (storage_data_of past_store)) =
     Inr \<lparr>sd_rsvpEntries = [],
          sd_events =
            [(String ''1'',
              Object [(''id'', String ''1''), (''name'', String ''Test Event''),
                      (''description'', String ''Test Description''),
                      (''date'', String ''2023-11-13T22:13:20.000Z''),
                      (''location'', String ''Test Location''), (''maxPlayers'', Number 2)])],
          sd_waitlist = [], sd_reminders = []\<rparr>"
    unfolding d
    by (simp add: save_def entries_array_def load_def load_map_def get_prop_def new_Map_def
        entry_of_item_def map_set_def is_primitive_def past_event_date_iso)
  show ?thesis
    unfolding l unfolding d by simp
qed

end
